theory Spec2Isabelle
  imports Complex_Main "HOL-Library.Word" "HOL-Library.Monad_Syntax"
begin

unbundle bit_operations_syntax

section \<open>Conventions of the embedding\<close>

text \<open>
  The sources are TypeScript. A JavaScript number that holds a count, an offset or a bit
  field is a \<open>nat\<close> or a word of the width the code reads; a number that holds a
  time, a coordinate or a curve value is a \<open>real\<close>, without the rounding of the
  IEEE doubles; the toon-shading gain, whose property is an identity of floating-point
  arithmetic, is computed on doubles with their rounding. An exception of the source (\<open>RangeError\<close> of a \<open>DataView\<close> read
  outside the buffer, \<open>TypeError\<close> of a property read on \<open>undefined\<close>, a failed
  \<open>assert\<close>) is a value of type \<open>js_error\<close>.
\<close>

datatype js_error = RangeError | TypeError | AssertionError

section \<open>Parsing helpers (Common/JSYSTEM/JStudio.ts)\<close>

subsection \<open>DataView reads, big endian\<close>

type_synonym DataView = "8 word list"

definition getUint8 :: "DataView \<Rightarrow> nat \<Rightarrow> js_error + nat" where
  "getUint8 view byteIdx =
     (if byteIdx + 1 \<le> length view then Inr (unat (view ! byteIdx)) else Inl RangeError)"

definition getUint16 :: "DataView \<Rightarrow> nat \<Rightarrow> js_error + nat" where
  "getUint16 view byteIdx =
     (if byteIdx + 2 \<le> length view
      then Inr (unat (view ! byteIdx) * 256 + unat (view ! (byteIdx + 1)))
      else Inl RangeError)"

definition getUint32 :: "DataView \<Rightarrow> nat \<Rightarrow> js_error + nat" where
  "getUint32 view byteIdx =
     (if byteIdx + 4 \<le> length view
      then Inr (unat (view ! byteIdx) * 16777216 + unat (view ! (byteIdx + 1)) * 65536
                + unat (view ! (byteIdx + 2)) * 256 + unat (view ! (byteIdx + 3)))
      else Inl RangeError)"

text \<open>
  Modelled from the spec: \<open>align\<close> is imported from \<open>util.js\<close>, which is not part of
  the sources at hand; the specification says the payload of a paragraph is 4-byte
  aligned, so \<open>align n m\<close> is \<open>n\<close> rounded up to the next multiple of \<open>m\<close>.
\<close>

definition align :: "nat \<Rightarrow> nat \<Rightarrow> nat" where
  "align n multiple = ((n + (multiple - 1)) div multiple) * multiple"

subsection \<open>TParagraph.parse\<close>

record TParagraph =
  type :: nat
  dataSize :: nat
  dataOffset :: nat
  nextOffset :: nat

text \<open>
  \<open>view.getUint32(byteIdx) & ~0x80000000\<close> is a 32-bit operation of JavaScript: both
  operands are taken as 32-bit integers, so it is computed on \<open>32 word\<close>; the result
  has its top bit clear and is the same number read signed or unsigned.
\<close>

definition mask_top_bit :: "nat \<Rightarrow> nat" where
  "mask_top_bit n = unat ((word_of_nat n :: 32 word) AND NOT 0x80000000)"

definition mk_paragraph :: "nat \<Rightarrow> nat \<Rightarrow> nat \<Rightarrow> nat \<Rightarrow> TParagraph" where
  "mk_paragraph sz ty byteIdx offset =
     (if sz = 0
      then \<lparr> type = ty, dataSize = sz, dataOffset = 0, nextOffset = byteIdx + offset \<rparr>
      else \<lparr> type = ty, dataSize = sz, dataOffset = byteIdx + offset,
             nextOffset = byteIdx + offset + align sz 4 \<rparr>)"

definition TParagraph_parse :: "DataView \<Rightarrow> nat \<Rightarrow> js_error + TParagraph" where
  "TParagraph_parse view byteIdx =
     (case getUint16 view byteIdx of
        Inl e \<Rightarrow> Inl e
      | Inr size16 \<Rightarrow>
          if size16 AND 0x8000 = 0 then
            (case getUint16 view (byteIdx + 2) of
               Inl e \<Rightarrow> Inl e
             | Inr ty \<Rightarrow> Inr (mk_paragraph size16 ty byteIdx 4))
          else
            (case getUint32 view (byteIdx + 0) of
               Inl e \<Rightarrow> Inl e
             | Inr size32 \<Rightarrow>
                 (case getUint32 view (byteIdx + 4) of
                    Inl e \<Rightarrow> Inl e
                  | Inr ty \<Rightarrow> Inr (mk_paragraph (mask_top_bit size32) ty byteIdx 8))))"

section \<open>Function values: the List-parameter curve (Common/JSYSTEM/JStudio.ts, namespace FVB)\<close>

text \<open>
  A curve value is a \<open>real option\<close>: \<open>None\<close> stands for a JavaScript number that is
  not finite (\<open>NaN\<close> from a read of \<open>undefined\<close>, \<open>NaN\<close> or an infinity from a
  division by zero). In the functions below a non-finite operand is never a divisor, so
  a non-finite intermediate result makes the final result non-finite.
\<close>

type_synonym jsval = "real option"

definition jdiv :: "real \<Rightarrow> real \<Rightarrow> jsval" where
  "jdiv a b = (if b = 0 then None else Some (a / b))"

text \<open>\<open>enum EInterpolateType\<close>; the attribute holds the raw u32 of the file.\<close>

definition EInterpolateType_None :: nat where "EInterpolateType_None = 0"
definition EInterpolateType_Linear :: nat where "EInterpolateType_Linear = 1"
definition EInterpolateType_Plateau :: nat where "EInterpolateType_Plateau = 2"
definition EInterpolateType_BSpline :: nat where "EInterpolateType_BSpline = 3"

lemmas EInterpolateType_defs = EInterpolateType_None_def EInterpolateType_Linear_def
  EInterpolateType_Plateau_def EInterpolateType_BSpline_def

text \<open>The method that \<open>interpFunc\<close> is bound to.\<close>

datatype interp_func = interpolateNone | interpolateLinear | interpolatePlateau
  | interpolateBSpline

text \<open>
  \<open>keys\<close> is the flat \<open>Float32Array\<close> (time, value, time, value, ...); it is
  \<open>None\<close> while \<open>setData\<close> has not run. \<open>setData\<close> is only called by
  \<open>TObject_ListParameter.prepare_data\<close>, with an array of \<open>keyCount * 2\<close> floats, so
  \<open>values.length / 2\<close> is a whole number. \<open>curKeyIdx\<close> is an \<open>int\<close>: index
  arithmetic such as \<open>c - 6\<close> can leave the array on the left.
\<close>

record FunctionValue_ListParameter =
  interpolate_type :: nat
  keyCount :: nat
  keys :: "real list option"
  curKeyIdx :: int
  interpFunc :: "interp_func option"

definition FunctionValue_ListParameter_new :: FunctionValue_ListParameter where
  "FunctionValue_ListParameter_new =
     \<lparr> interpolate_type = EInterpolateType_None, keyCount = 0, keys = None, curKeyIdx = 0,
       interpFunc = None \<rparr>"

definition Interpolate_set :: "nat \<Rightarrow> FunctionValue_ListParameter \<Rightarrow> FunctionValue_ListParameter"
  where
  "Interpolate_set ty fv = fv\<lparr>interpolate_type := ty\<rparr>"

text \<open>
  \<open>setData\<close>: \<open>keyCount\<close> is \<open>values.length / 2\<close>. The array that \<open>prepare_data\<close>
  passes holds \<open>keyCount * 2\<close> numbers, so the division is exact.
\<close>

definition setData :: "real list \<Rightarrow> FunctionValue_ListParameter \<Rightarrow> FunctionValue_ListParameter"
  where
  "setData values fv = fv\<lparr>keys := Some values, keyCount := length values div 2, curKeyIdx := 0\<rparr>"

text \<open>
  \<open>prepare\<close> is a \<open>switch\<close> whose first three cases have no \<open>break\<close>: control
  entering at \<open>None\<close>, \<open>Linear\<close> or \<open>Plateau\<close> runs every following case body down to
  the \<open>break\<close> of the \<open>BSpline\<close> case. Each line below is one case body, run when
  the switch was entered at that case or at an earlier one.
\<close>

definition prepare :: "FunctionValue_ListParameter \<Rightarrow> FunctionValue_ListParameter" where
  "prepare fv =
     (let interp = interpolate_type fv;
          f0 = interpFunc fv;
          f1 = (if interp = EInterpolateType_None then Some interpolateNone else f0);
          f2 = (if interp \<le> EInterpolateType_Linear then Some interpolateLinear else f1);
          f3 = (if interp \<le> EInterpolateType_Plateau then Some interpolatePlateau else f2);
          f4 = (if interp \<le> EInterpolateType_BSpline
                then (if keyCount fv > 2 then Some interpolateBSpline
                      else Some interpolateLinear)
                else f3)
      in fv\<lparr>interpFunc := f4\<rparr>)"

text \<open>A read \<open>this.keys[i]\<close>: \<open>undefined\<close> outside the array.\<close>

definition key_at :: "real list \<Rightarrow> int \<Rightarrow> jsval" where
  "key_at ks i = (if 0 \<le> i \<and> nat i < length ks then Some (ks ! nat i) else None)"

text \<open>\<open>Attribute.Interpolate.Linear\<close>.\<close>

definition Interpolate_Linear :: "real \<Rightarrow> real \<Rightarrow> real \<Rightarrow> real \<Rightarrow> real \<Rightarrow> jsval" where
  "Interpolate_Linear t t0 v0 t1 v1 =
     map_option (\<lambda>q. v0 + q) (jdiv ((v1 - v0) * (t - t0)) (t1 - t0))"

text \<open>\<open>Attribute.Interpolate.BSpline_Nonuniform\<close>, on four control points and six knots.\<close>

definition BSpline_Nonuniform ::
  "real \<Rightarrow> real \<times> real \<times> real \<times> real \<Rightarrow> real \<times> real \<times> real \<times> real \<times> real \<times> real \<Rightarrow> jsval"
  where
  "BSpline_Nonuniform t controlPoints knotVector =
     (case controlPoints of (cp0, cp1, cp2, cp3) \<Rightarrow>
      case knotVector of (knot0, knot1, knot2, knot3, knot4, knot5) \<Rightarrow>
        let diff0 = t - knot0;
            diff1 = t - knot1;
            diff2 = t - knot2;
            diff3 = knot3 - t;
            diff4 = knot4 - t;
            diff5 = knot5 - t
        in do {
          inverseDeltaKnot32 \<leftarrow> jdiv 1 (knot3 - knot2);
          blendFactor3 \<leftarrow> jdiv (diff3 * inverseDeltaKnot32) (knot3 - knot1);
          blendFactor2 \<leftarrow> jdiv (diff2 * inverseDeltaKnot32) (knot4 - knot2);
          blendFactor1 \<leftarrow> jdiv (diff3 * blendFactor3) (knot3 - knot0);
          blendFactor4 \<leftarrow> jdiv ((diff1 * blendFactor3) + (diff4 * blendFactor2)) (knot4 - knot1);
          blendFactor5 \<leftarrow> jdiv (diff2 * blendFactor2) (knot5 - knot2);
          let term1 = diff3 * blendFactor1;
              term2 = (diff0 * blendFactor1) + (diff4 * blendFactor4);
              term3 = (diff1 * blendFactor4) + (diff5 * blendFactor5);
              term4 = diff2 * blendFactor5
          in Some ((term1 * cp0) + (term2 * cp1) + (term3 * cp2) + (term4 * cp3))
        })"

definition interpolateLinear_impl :: "FunctionValue_ListParameter \<Rightarrow> real list \<Rightarrow> real \<Rightarrow> jsval"
  where
  "interpolateLinear_impl fv ks t =
     (let c = curKeyIdx fv * 2 in do {
        t0 \<leftarrow> key_at ks (c - 2);
        v0 \<leftarrow> key_at ks (c - 1);
        t1 \<leftarrow> key_at ks (c + 0);
        v1 \<leftarrow> key_at ks (c + 1);
        Interpolate_Linear t t0 v0 t1 v1
      })"

definition interpolateNone_impl :: "FunctionValue_ListParameter \<Rightarrow> real list \<Rightarrow> real \<Rightarrow> jsval"
  where
  "interpolateNone_impl fv ks t = key_at ks (curKeyIdx fv)"

definition interpolatePlateau_impl :: "FunctionValue_ListParameter \<Rightarrow> real list \<Rightarrow> real \<Rightarrow> jsval"
  where
  "interpolatePlateau_impl fv ks t = interpolateNone_impl fv ks t"

definition interpolateBSpline_impl :: "FunctionValue_ListParameter \<Rightarrow> real list \<Rightarrow> real \<Rightarrow> jsval"
  where
  "interpolateBSpline_impl fv ks t =
     (let c = curKeyIdx fv * 2;
          keysBefore = curKeyIdx fv;
          keysAfter = int (keyCount fv) - curKeyIdx fv
      in do {
        cp1 \<leftarrow> key_at ks (c - 1);
        cp2 \<leftarrow> key_at ks (c + 1);
        knot2 \<leftarrow> key_at ks (c + -2);
        knot3 \<leftarrow> key_at ks (c + 0);
        if keysBefore = 1 then do {
          let cp0 = 2 * cp1 - cp2;
          cp3 \<leftarrow> key_at ks (c + 3);
          knot4 \<leftarrow> key_at ks (c + 2);
          let knot1 = 2 * knot2 - knot3;
          let knot0 = 2 * knot2 - knot4;
          knot5 \<leftarrow> (if keysAfter = 1 \<or> keysAfter = 2 then Some (2 * knot4 - knot3)
                    else key_at ks (c + 4));
          BSpline_Nonuniform t (cp0, cp1, cp2, cp3) (knot0, knot1, knot2, knot3, knot4, knot5)
        } else if keysBefore = 2 then do {
          cp0 \<leftarrow> key_at ks (c + -3);
          knot1 \<leftarrow> key_at ks (c + -4);
          let knot0 = 2 * knot1 - knot2;
          if keysAfter = 1 then do {
            let cp3 = 2 * cp2 - cp1;
            let knot4 = 2 * knot3 - knot2;
            let knot5 = 2 * knot3 - knot1;
            BSpline_Nonuniform t (cp0, cp1, cp2, cp3)
              (knot0, knot1, knot2, knot3, knot4, knot5)
          } else if keysAfter = 2 then do {
            cp3 \<leftarrow> key_at ks (c + 3);
            knot4 \<leftarrow> key_at ks (c + 2);
            let knot5 = 2 * knot4 - knot3;
            BSpline_Nonuniform t (cp0, cp1, cp2, cp3)
              (knot0, knot1, knot2, knot3, knot4, knot5)
          } else do {
            cp3 \<leftarrow> key_at ks (c + 3);
            knot4 \<leftarrow> key_at ks (c + 2);
            knot5 \<leftarrow> key_at ks (c + 4);
            BSpline_Nonuniform t (cp0, cp1, cp2, cp3)
              (knot0, knot1, knot2, knot3, knot4, knot5)
          }
        } else do {
          cp0 \<leftarrow> key_at ks (c + -3);
          knot1 \<leftarrow> key_at ks (c + -4);
          knot0 \<leftarrow> key_at ks (c + -6);
          if keysAfter = 1 then do {
            let cp3 = 2 * cp2 - cp1;
            let knot4 = 2 * knot3 - knot2;
            let knot5 = 2 * knot3 - knot1;
            BSpline_Nonuniform t (cp0, cp1, cp2, cp3)
              (knot0, knot1, knot2, knot3, knot4, knot5)
          } else if keysAfter = 2 then do {
            cp3 \<leftarrow> key_at ks (c + 3);
            knot4 \<leftarrow> key_at ks (c + 2);
            let knot5 = 2 * knot4 - knot3;
            BSpline_Nonuniform t (cp0, cp1, cp2, cp3)
              (knot0, knot1, knot2, knot3, knot4, knot5)
          } else do {
            cp3 \<leftarrow> key_at ks (c + 3);
            knot4 \<leftarrow> key_at ks (c + 2);
            knot5 \<leftarrow> key_at ks (c + 4);
            BSpline_Nonuniform t (cp0, cp1, cp2, cp3)
              (knot0, knot1, knot2, knot3, knot4, knot5)
          }
        }
      })"

text \<open>
  \<open>this.keys.findIndex((k, i) => (i % 2) == 0 && k >= t)\<close>: the first even index
  whose entry is at least \<open>t\<close>, scanning from index \<open>i\<close>; \<open>None\<close> is the \<open>-1\<close> of
  JavaScript.
\<close>

fun findIndex_from :: "real list \<Rightarrow> real \<Rightarrow> nat \<Rightarrow> nat option" where
  "findIndex_from [] t i = None"
| "findIndex_from (k # ks) t i =
     (if i mod 2 = 0 \<and> k \<ge> t then Some i else findIndex_from ks t (Suc i))"

definition call_interpFunc ::
  "interp_func \<Rightarrow> FunctionValue_ListParameter \<Rightarrow> real list \<Rightarrow> real \<Rightarrow> jsval" where
  "call_interpFunc f fv ks t =
     (case f of
        interpolateNone \<Rightarrow> interpolateNone_impl fv ks t
      | interpolateLinear \<Rightarrow> interpolateLinear_impl fv ks t
      | interpolatePlateau \<Rightarrow> interpolatePlateau_impl fv ks t
      | interpolateBSpline \<Rightarrow> interpolateBSpline_impl fv ks t)"

text \<open>
  \<open>getValue\<close> returns the value and the object with its \<open>curKeyIdx\<close> updated.
  \<open>Range.getParameter\<close> returns the time unchanged. A search that finds nothing gives
  \<open>curKeyIdx = -1 / 2\<close>, which is negative. Reading \<open>this.keys[0]\<close> of an object
  without keys, or calling an unbound \<open>interpFunc\<close>, is a \<open>TypeError\<close>.
\<close>

definition getValue ::
  "FunctionValue_ListParameter \<Rightarrow> real \<Rightarrow> js_error + (jsval \<times> FunctionValue_ListParameter)"
  where
  "getValue fv timeSec =
     (case keys fv of
        None \<Rightarrow> Inl TypeError
      | Some ks \<Rightarrow>
          let t = timeSec in
          (case findIndex_from ks t 0 of
             None \<Rightarrow>
               let fv' = fv\<lparr>curKeyIdx := int (keyCount fv) - 1\<rparr>
               in Inr (key_at ks (curKeyIdx fv' * 2 + 1), fv')
           | Some i \<Rightarrow>
               let fv' = fv\<lparr>curKeyIdx := int i div 2\<rparr> in
               if curKeyIdx fv' = 0 then Inr (key_at ks (curKeyIdx fv' * 2 + 1), fv')
               else (case interpFunc fv' of
                       None \<Rightarrow> Inl TypeError
                     | Some f \<Rightarrow> Inr (call_interpFunc f fv' ks t, fv'))))"

text \<open>
  The flat key array of a list of (time, value) keys, as \<open>prepare_data\<close> reads it from
  the file, and the curve object after its \<open>Data\<close> and \<open>InterpSet\<close> paragraphs and the
  closing \<open>prepare\<close>.
\<close>

fun flat_keys :: "(real \<times> real) list \<Rightarrow> real list" where
  "flat_keys [] = []"
| "flat_keys ((t, v) # kvs) = t # v # flat_keys kvs"

definition list_parameter_curve :: "nat \<Rightarrow> (real \<times> real) list \<Rightarrow> FunctionValue_ListParameter"
  where
  "list_parameter_curve interp kvs =
     prepare (Interpolate_set interp (setData (flat_keys kvs) FunctionValue_ListParameter_new))"

text \<open>The value that \<open>getValue\<close> returns, without the updated object.\<close>

definition curve_value :: "FunctionValue_ListParameter \<Rightarrow> real \<Rightarrow> js_error + jsval" where
  "curve_value fv timeSec = map_sum id fst (getValue fv timeSec)"

section \<open>Toon-shading gain (rustlib.ts)\<close>




















section \<open>Foliage packets (WindWaker/Grass.ts)\<close>

text \<open>
  A coordinate is a finite number or the negative infinity that a ground query returns
  when it hits nothing. Positions are \<open>vec3\<close>, surface normals and the vectors derived
  from them are finite. A \<open>mat4\<close> is its list of 16 entries, column after column.

  The embedding keeps the fields of an instance that the ground-check pass reads or
  writes (\<open>flags\<close>, \<open>pos\<close>, \<open>shadowModelMtx\<close>) and the fields a spawn sets
  (\<open>animIdx\<close>, \<open>itemIdx\<close>, the flower type, \<open>status\<close>, \<open>trunkAlpha\<close>). The model
  matrices, which the update recomputes from \<open>pos\<close> and the shared animation pool for
  drawing, and the animation pool itself are left out: nothing in the pass reads them.
\<close>

datatype coord = Fin real | NegInfinity

fun coord_add :: "coord \<Rightarrow> real \<Rightarrow> coord" where
  "coord_add (Fin a) b = Fin (a + b)"
| "coord_add NegInfinity b = NegInfinity"

type_synonym vec3 = "coord \<times> coord \<times> coord"
type_synonym rvec3 = "real \<times> real \<times> real"
type_synonym mat4 = "coord list"

definition mat4_create :: mat4 where
  "mat4_create = map Fin [1, 0, 0, 0, 0, 1, 0, 0, 0, 0, 1, 0, 0, 0, 0, 1]"

definition mat4_transpose :: "mat4 \<Rightarrow> mat4" where
  "mat4_transpose m = map (\<lambda>k. m ! (4 * (k mod 4) + k div 4)) [0..<16]"

definition vec3_cross :: "rvec3 \<Rightarrow> rvec3 \<Rightarrow> rvec3" where
  "vec3_cross a b =
     (case a of (ax, ay, az) \<Rightarrow> case b of (bx, by, bz) \<Rightarrow>
        (ay * bz - az * by, az * bx - ax * bz, ax * by - ay * bx))"

text \<open>
  The boundary-query system \<open>globals.scnPlay.bgS\<close> is not part of the sources at hand.
  It is a parameter: \<open>GroundCross\<close> maps the position of the query to the height of
  the ground below it, or to negative infinity; \<open>GetTriPla_getNormal\<close> gives the
  normal of the triangle that the query from that position hit.
\<close>

record bgS =
  GroundCross :: "vec3 \<Rightarrow> coord"
  GetTriPla_getNormal :: "vec3 \<Rightarrow> rvec3"

definition kMaxGroundChecksPerFrame :: nat where
  "kMaxGroundChecksPerFrame = 8"

text \<open>
  The flag enums \<open>FlowerFlags\<close>, \<open>TreeFlags\<close>, \<open>GrassFlags\<close>: \<open>needsGroundCheck\<close>
  is \<open>2 << 0\<close> for flowers and \<open>1 << 1\<close> for the others, the same bit.
\<close>

definition isFrustumCulled :: "32 word" where "isFrustumCulled = 1"
definition FlowerFlags_needsGroundCheck :: "32 word" where
  "FlowerFlags_needsGroundCheck = push_bit 0 2"
definition TreeFlags_needsGroundCheck :: "32 word" where
  "TreeFlags_needsGroundCheck = push_bit 1 1"
definition GrassFlags_needsGroundCheck :: "32 word" where
  "GrassFlags_needsGroundCheck = push_bit 1 1"

datatype FlowerType = WHITE | PINK | BESSOU

record FoliageData =
  flags :: "32 word"
  animIdx :: nat
  pos :: vec3

record ItemFoliageData = FoliageData +
  itemIdx :: nat

record FlowerData = ItemFoliageData +
  flowerType :: FlowerType
  particleLifetime :: nat

type_synonym GrassData = ItemFoliageData

record TreeData = FoliageData +
  status :: nat
  trunkAlpha :: nat
  shadowModelMtx :: mat4

record BushData = TreeData +
  roomIdx :: nat

text \<open>A packet: \<open>rooms\<close> is the array of 64 buckets.\<close>

record 'd Packet =
  rooms :: "'d list list"

definition Packet_new :: "'d Packet" where
  "Packet_new = \<lparr> rooms = replicate 64 [] \<rparr>"

subsection \<open>Ground checks\<close>

text \<open>
  The position of a query: \<open>vec3.copy(chk.pos, pos); chk.pos[1] += 50\<close>.
\<close>

definition chk_pos :: "vec3 \<Rightarrow> vec3" where
  "chk_pos p = (case p of (px, py, pz) \<Rightarrow> (px, coord_add py 50, pz))"

text \<open>The module function \<open>checkGroundY\<close>, used for flowers and grass.\<close>

definition checkGroundY :: "bgS \<Rightarrow> nat \<Rightarrow> vec3 \<Rightarrow> coord" where
  "checkGroundY bg roomNo p =
     (case p of (px, py, pz) \<Rightarrow>
        let y = GroundCross bg (chk_pos p)
        in if y \<noteq> NegInfinity then y else py)"

text \<open>
  \<open>TreePacket.checkGroundY\<close> and \<open>BushPacket.checkGroundY\<close> have the same body: both
  branches store the result of the query in \<open>pos[1]\<close>, then the shadow matrix is
  rebuilt and transposed, and the result of the query is returned.
\<close>

definition shadow_rows :: "mat4 \<Rightarrow> rvec3 \<Rightarrow> rvec3 \<Rightarrow> rvec3 \<Rightarrow> vec3 \<Rightarrow> coord \<Rightarrow> mat4" where
  "shadow_rows m right normal forward p y =
     (case right of (r0, r1, r2) \<Rightarrow> case normal of (n0, n1, n2) \<Rightarrow>
      case forward of (f0, f1, f2) \<Rightarrow> case p of (px, py, pz) \<Rightarrow>
        m[0 := Fin r0, 1 := Fin r1, 2 := Fin r2, 3 := px,
          4 := Fin n0, 5 := Fin n1, 6 := Fin n2, 7 := coord_add y 1.0,
          8 := Fin f0, 9 := Fin f1, 10 := Fin f2, 11 := pz])"

definition TreePacket_checkGroundY ::
  "bgS \<Rightarrow> nat \<Rightarrow> 'a TreeData_scheme \<Rightarrow> coord \<times> 'a TreeData_scheme" where
  "TreePacket_checkGroundY bg roomNo treeData =
     (case pos treeData of (px, py, pz) \<Rightarrow>
        let y = GroundCross bg (chk_pos (pos treeData));
            (treeData1, normal) =
              (if y \<noteq> NegInfinity
               then (treeData\<lparr>pos := (px, y, pz)\<rparr>,
                     GetTriPla_getNormal bg (chk_pos (pos treeData)))
               else (treeData\<lparr>pos := (px, y, pz)\<rparr>, (0, 1, 0)));
            right0 = (1, 0, 0);
            forward = vec3_cross normal right0;
            right = vec3_cross normal forward;
            m = shadow_rows (shadowModelMtx treeData1) right normal forward (pos treeData1) y
        in (y, treeData1\<lparr>shadowModelMtx := mat4_transpose m\<rparr>))"

definition BushPacket_checkGroundY :: "bgS \<Rightarrow> nat \<Rightarrow> BushData \<Rightarrow> coord \<times> BushData" where
  "BushPacket_checkGroundY bg roomNo data =
     (case pos data of (px, py, pz) \<Rightarrow>
        let y = GroundCross bg (chk_pos (pos data));
            (data1, normal) =
              (if y \<noteq> NegInfinity
               then (data\<lparr>pos := (px, y, pz)\<rparr>,
                     GetTriPla_getNormal bg (chk_pos (pos data)))
               else (data\<lparr>pos := (px, y, pz)\<rparr>, (0, 1, 0)));
            right0 = (1, 0, 0);
            forward = vec3_cross normal right0;
            right = vec3_cross normal forward;
            m = shadow_rows (shadowModelMtx data1) right normal forward (pos data1) y
        in (y, data1\<lparr>shadowModelMtx := mat4_transpose m\<rparr>))"

text \<open>
  The body of the \<open>if\<close> that services one instance: \<open>data.pos[1] = checkGroundY(...)\<close>,
  then the flag is cleared (the counter is incremented by the loop).
\<close>

definition set_pos_y :: "vec3 \<Rightarrow> coord \<Rightarrow> vec3" where
  "set_pos_y p y = (case p of (px, py, pz) \<Rightarrow> (px, y, pz))"

definition FlowerPacket_service :: "bgS \<Rightarrow> nat \<Rightarrow> FlowerData \<Rightarrow> FlowerData" where
  "FlowerPacket_service bg roomNo data =
     (let data1 = data\<lparr>pos := set_pos_y (pos data) (checkGroundY bg roomNo (pos data))\<rparr>
      in data1\<lparr>flags := flags data1 AND NOT FlowerFlags_needsGroundCheck\<rparr>)"

definition GrassPacket_service :: "bgS \<Rightarrow> nat \<Rightarrow> GrassData \<Rightarrow> GrassData" where
  "GrassPacket_service bg roomNo data =
     (let data1 = data\<lparr>pos := set_pos_y (pos data) (checkGroundY bg roomNo (pos data))\<rparr>
      in data1\<lparr>flags := flags data1 AND NOT GrassFlags_needsGroundCheck\<rparr>)"

definition TreePacket_service :: "bgS \<Rightarrow> nat \<Rightarrow> TreeData \<Rightarrow> TreeData" where
  "TreePacket_service bg roomNo data =
     (case TreePacket_checkGroundY bg roomNo data of (y, data0) \<Rightarrow>
        let data1 = data0\<lparr>pos := set_pos_y (pos data0) y\<rparr>
        in data1\<lparr>flags := flags data1 AND NOT TreeFlags_needsGroundCheck\<rparr>)"

definition BushPacket_service :: "bgS \<Rightarrow> nat \<Rightarrow> BushData \<Rightarrow> BushData" where
  "BushPacket_service bg roomNo data =
     (case BushPacket_checkGroundY bg roomNo data of (y, data0) \<Rightarrow>
        let data1 = data0\<lparr>pos := set_pos_y (pos data0) y\<rparr>
        in data1\<lparr>flags := flags data1 AND NOT TreeFlags_needsGroundCheck\<rparr>)"

subsection \<open>The update loops\<close>

text \<open>
  An update returns the packet and, as a ghost value, the list of the instances it
  serviced (room index, index in the room), in the order of the ground queries: each
  entry is one call of \<open>GroundCross\<close>.

  \<open>FlowerPacket.update\<close> is one loop over the rooms in index order with a loop over
  the instances of the room inside; it neither reads \<open>mStayNo\<close> nor leaves a loop
  early.
\<close>

fun FlowerPacket_update_room ::
  "bgS \<Rightarrow> nat \<Rightarrow> nat \<Rightarrow> FlowerData list \<Rightarrow> nat \<Rightarrow> FlowerData list \<times> nat \<times> (nat \<times> nat) list"
  where
  "FlowerPacket_update_room bg roomNo i [] groundChecksThisFrame =
     ([], groundChecksThisFrame, [])"
| "FlowerPacket_update_room bg roomNo i (data # rest) groundChecksThisFrame =
     (if flags data AND FlowerFlags_needsGroundCheck \<noteq> 0
         \<and> groundChecksThisFrame < kMaxGroundChecksPerFrame
      then (case FlowerPacket_update_room bg roomNo (Suc i) rest (Suc groundChecksThisFrame) of
              (rest', n, q) \<Rightarrow> (FlowerPacket_service bg roomNo data # rest', n, (roomNo, i) # q))
      else (case FlowerPacket_update_room bg roomNo (Suc i) rest groundChecksThisFrame of
              (rest', n, q) \<Rightarrow> (data # rest', n, q)))"

fun FlowerPacket_update_rooms ::
  "bgS \<Rightarrow> nat \<Rightarrow> FlowerData list list \<Rightarrow> nat
     \<Rightarrow> FlowerData list list \<times> nat \<times> (nat \<times> nat) list" where
  "FlowerPacket_update_rooms bg roomNo [] groundChecksThisFrame =
     ([], groundChecksThisFrame, [])"
| "FlowerPacket_update_rooms bg roomNo (room # others) groundChecksThisFrame =
     (case FlowerPacket_update_room bg roomNo 0 room groundChecksThisFrame of
        (room', n, q) \<Rightarrow>
          (case FlowerPacket_update_rooms bg (Suc roomNo) others n of
             (others', n', q') \<Rightarrow> (room' # others', n', q @ q')))"

definition FlowerPacket_update ::
  "bgS \<Rightarrow> FlowerData Packet \<Rightarrow> FlowerData Packet \<times> (nat \<times> nat) list" where
  "FlowerPacket_update bg pkt =
     (case FlowerPacket_update_rooms bg 0 (rooms pkt) 0 of
        (rooms', n, q) \<Rightarrow> (pkt\<lparr>rooms := rooms'\<rparr>, q))"

text \<open>
  \<open>TreePacket\<close>, \<open>GrassPacket\<close> and \<open>BushPacket\<close> have the same \<open>updateRoom\<close> and
  \<open>update\<close> around their own ground check, so the two loops are defined once, with the
  test of the flag and the service of an instance as parameters. \<open>updateRoom\<close> leaves
  its loop at the first instance it reaches with the budget used up.
\<close>

fun updateRoom_loop ::
  "('d \<Rightarrow> nat \<Rightarrow> bool) \<Rightarrow> (nat \<Rightarrow> 'd \<Rightarrow> 'd) \<Rightarrow> nat \<Rightarrow> nat \<Rightarrow> 'd list \<Rightarrow> nat
     \<Rightarrow> 'd list \<times> nat \<times> (nat \<times> nat) list" where
  "updateRoom_loop test service roomNo i [] groundChecksThisFrame =
     ([], groundChecksThisFrame, [])"
| "updateRoom_loop test service roomNo i (data # rest) groundChecksThisFrame =
     (if groundChecksThisFrame \<ge> kMaxGroundChecksPerFrame
      then (data # rest, groundChecksThisFrame, [])
      else if test data groundChecksThisFrame
      then (case updateRoom_loop test service roomNo (Suc i) rest (Suc groundChecksThisFrame) of
              (rest', n, q) \<Rightarrow> (service roomNo data # rest', n, (roomNo, i) # q))
      else (case updateRoom_loop test service roomNo (Suc i) rest groundChecksThisFrame of
              (rest', n, q) \<Rightarrow> (data # rest', n, q)))"

text \<open>
  The state of an update: the buckets, the counter and the ghost list. \<open>updateRoom\<close>
  reads \<open>this.rooms[roomIdx]\<close>; the callers pass indices inside the array.
\<close>

type_synonym 'd update_state = "'d list list \<times> nat \<times> (nat \<times> nat) list"

definition updateRoom ::
  "('d \<Rightarrow> nat \<Rightarrow> bool) \<Rightarrow> (nat \<Rightarrow> 'd \<Rightarrow> 'd) \<Rightarrow> nat \<Rightarrow> 'd update_state \<Rightarrow> 'd update_state"
  where
  "updateRoom test service roomNo st =
     (case st of (rs, groundChecksThisFrame, q) \<Rightarrow>
        case updateRoom_loop test service roomNo 0 (rs ! roomNo) groundChecksThisFrame of
          (room', n, q') \<Rightarrow> (rs[roomNo := room'], n, q @ q'))"

text \<open>
  The \<open>for\<close> loop of \<open>update\<close> over the room indices that are left: it stops when the
  counter is above the budget and skips the current room.
\<close>

fun update_other_rooms ::
  "('d \<Rightarrow> nat \<Rightarrow> bool) \<Rightarrow> (nat \<Rightarrow> 'd \<Rightarrow> 'd) \<Rightarrow> nat \<Rightarrow> nat list \<Rightarrow> 'd update_state
     \<Rightarrow> 'd update_state" where
  "update_other_rooms test service mStayNo [] st = st"
| "update_other_rooms test service mStayNo (roomNo # others) st =
     (if fst (snd st) > kMaxGroundChecksPerFrame then st
      else if roomNo = mStayNo then update_other_rooms test service mStayNo others st
      else update_other_rooms test service mStayNo others (updateRoom test service roomNo st))"

text \<open>
  \<open>update\<close>: the current room first, then the others. A value of \<open>mStayNo\<close> outside
  the array makes \<open>room.length\<close> a read on \<open>undefined\<close>.
\<close>

definition update_impl ::
  "('d \<Rightarrow> nat \<Rightarrow> bool) \<Rightarrow> (nat \<Rightarrow> 'd \<Rightarrow> 'd) \<Rightarrow> nat \<Rightarrow> 'd Packet
     \<Rightarrow> js_error + 'd Packet \<times> (nat \<times> nat) list" where
  "update_impl test service mStayNo pkt =
     (if mStayNo \<ge> length (rooms pkt) then Inl TypeError
      else
        let st0 = (rooms pkt, 0, []);
            st1 = updateRoom test service mStayNo st0;
            st2 = update_other_rooms test service mStayNo [0..<length (rooms pkt)] st1
        in (case st2 of (rs, n, q) \<Rightarrow> Inr (pkt\<lparr>rooms := rs\<rparr>, q)))"

definition TreePacket_update ::
  "bgS \<Rightarrow> nat \<Rightarrow> TreeData Packet \<Rightarrow> js_error + TreeData Packet \<times> (nat \<times> nat) list" where
  "TreePacket_update bg mStayNo pkt =
     update_impl (\<lambda>data n. flags data AND GrassFlags_needsGroundCheck \<noteq> 0)
       (TreePacket_service bg) mStayNo pkt"

definition GrassPacket_update ::
  "bgS \<Rightarrow> nat \<Rightarrow> GrassData Packet \<Rightarrow> js_error + GrassData Packet \<times> (nat \<times> nat) list" where
  "GrassPacket_update bg mStayNo pkt =
     update_impl (\<lambda>data n. flags data AND GrassFlags_needsGroundCheck \<noteq> 0)
       (GrassPacket_service bg) mStayNo pkt"

definition BushPacket_update ::
  "bgS \<Rightarrow> nat \<Rightarrow> BushData Packet \<Rightarrow> js_error + BushData Packet \<times> (nat \<times> nat) list" where
  "BushPacket_update bg mStayNo pkt =
     update_impl (\<lambda>data n. flags data AND TreeFlags_needsGroundCheck \<noteq> 0
                            \<and> n < kMaxGroundChecksPerFrame)
       (BushPacket_service bg) mStayNo pkt"

subsection \<open>Notions used to state the properties of an update\<close>

text \<open>The flag of an instance, of any packet.\<close>

definition needsGroundCheck :: "'a FoliageData_scheme \<Rightarrow> bool" where
  "needsGroundCheck data = (flags data AND 2 \<noteq> 0)"

text \<open>The test of the flower loop, as a function of the instance and the counter.\<close>

definition Flower_test :: "FlowerData \<Rightarrow> nat \<Rightarrow> bool" where
  "Flower_test data n =
     (flags data AND FlowerFlags_needsGroundCheck \<noteq> 0 \<and> n < kMaxGroundChecksPerFrame)"

text \<open>
  The state of a pass over some rooms, compared with the buckets \<open>rs0\<close> at the start of
  the update: the counter is the number of serviced instances and within the budget, no
  instance is serviced twice, a serviced instance was flagged and is now the result of
  its service, and every other instance is as it was.
\<close>

definition pass_inv ::
  "('d \<Rightarrow> bool) \<Rightarrow> (nat \<Rightarrow> 'd \<Rightarrow> 'd) \<Rightarrow> 'd list list \<Rightarrow> 'd update_state \<Rightarrow> bool" where
  "pass_inv flagged service rs0 st =
     (case st of (rs, n, q) \<Rightarrow>
        length rs = length rs0 \<and> n = length q \<and> n \<le> kMaxGroundChecksPerFrame \<and> distinct q
        \<and> (\<forall>(a, j) \<in> set q. a < length rs0 \<and> j < length (rs0 ! a) \<and> flagged (rs0 ! a ! j))
        \<and> (\<forall>a < length rs0. length (rs ! a) = length (rs0 ! a)
              \<and> (\<forall>j < length (rs0 ! a).
                    rs ! a ! j = (if (a, j) \<in> set q then service a (rs0 ! a ! j)
                                  else rs0 ! a ! j))))"

text \<open>A room that a pass has gone through: with budget left, none of its instances is flagged.\<close>

definition room_done :: "('d \<Rightarrow> bool) \<Rightarrow> 'd update_state \<Rightarrow> nat \<Rightarrow> bool" where
  "room_done flagged st a =
     (case st of (rs, n, q) \<Rightarrow>
        n < kMaxGroundChecksPerFrame \<longrightarrow> (\<forall>j < length (rs ! a). \<not> flagged (rs ! a ! j)))"

text \<open>
  What an update may do to the buckets \<open>rs0\<close>, given the list \<open>q\<close> of the instances
  it serviced: at most \<open>kMaxGroundChecksPerFrame\<close> queries, no instance twice, every
  serviced instance was flagged and is not flagged afterwards, and every other instance
  is unchanged (so it keeps its flag).
\<close>

definition ground_pass_ok ::
  "'a FoliageData_scheme list list \<Rightarrow> 'a FoliageData_scheme list list \<Rightarrow> (nat \<times> nat) list \<Rightarrow> bool"
  where
  "ground_pass_ok rs0 rs q =
     (length q \<le> kMaxGroundChecksPerFrame \<and> distinct q \<and> length rs = length rs0
      \<and> (\<forall>(a, j) \<in> set q. a < length rs0 \<and> j < length (rs0 ! a))
      \<and> (\<forall>a < length rs0. length (rs ! a) = length (rs0 ! a)
            \<and> (\<forall>j < length (rs0 ! a).
                  if (a, j) \<in> set q
                  then needsGroundCheck (rs0 ! a ! j) \<and> \<not> needsGroundCheck (rs ! a ! j)
                  else rs ! a ! j = rs0 ! a ! j)))"

text \<open>Twenty flagged instances in the room \<open>r0\<close> and none in any other room.\<close>

definition twenty_flagged_in_room :: "'a FoliageData_scheme list list \<Rightarrow> nat \<Rightarrow> bool" where
  "twenty_flagged_in_room rs0 r0 =
     (r0 < length rs0 \<and> length (rs0 ! r0) = 20 \<and> (\<forall>d \<in> set (rs0 ! r0). needsGroundCheck d)
      \<and> (\<forall>a < length rs0. a \<noteq> r0 \<longrightarrow> rs0 ! a = []))"

text \<open>
  The outcome for that room: eight queries, eight instances of the room without the
  flag and twelve with it.
\<close>

definition eight_of_twenty :: "'a FoliageData_scheme list list \<Rightarrow> nat \<Rightarrow> (nat \<times> nat) list \<Rightarrow> bool" where
  "eight_of_twenty rs r0 q =
     (length q = 8 \<and> length (filter (\<lambda>d. \<not> needsGroundCheck d) (rs ! r0)) = 8
      \<and> length (filter needsGroundCheck (rs ! r0)) = 12)"

text \<open>The ground query for an instance hits nothing.\<close>

definition ground_miss :: "bgS \<Rightarrow> 'a FoliageData_scheme \<Rightarrow> bool" where
  "ground_miss bg data = (GroundCross bg (chk_pos (pos data)) = NegInfinity)"

subsection \<open>Sample inputs\<close>

text \<open>
  A boundary-query system in which every query misses, one flagged instance of each
  kind as \<open>newData\<close> creates it, and two packets of 64 rooms: twenty copies of an
  instance in room 5, and a single instance in room 0.
\<close>

definition sample_bgS :: bgS where
  "sample_bgS = \<lparr> GroundCross = (\<lambda>p. NegInfinity), GetTriPla_getNormal = (\<lambda>p. (0, 1, 0)) \<rparr>"

definition sample_flower :: FlowerData where
  "sample_flower = \<lparr> flags = 2, animIdx = 0, pos = (Fin 10, Fin 20, Fin 30), itemIdx = 0,
                      flowerType = WHITE, particleLifetime = 0 \<rparr>"

definition sample_grass :: GrassData where
  "sample_grass = \<lparr> flags = 2, animIdx = 0, pos = (Fin 10, Fin 20, Fin 30), itemIdx = 0 \<rparr>"

definition sample_tree :: TreeData where
  "sample_tree = \<lparr> flags = 2, animIdx = 0, pos = (Fin 10, Fin 20, Fin 30), status = 0,
                    trunkAlpha = 255, shadowModelMtx = mat4_create \<rparr>"

definition sample_bush :: BushData where
  "sample_bush = \<lparr> flags = 2, animIdx = 0, pos = (Fin 10, Fin 20, Fin 30), status = 0,
                    trunkAlpha = 255, shadowModelMtx = mat4_create, roomIdx = 5 \<rparr>"

definition twenty_in_room_five :: "'d \<Rightarrow> 'd Packet" where
  "twenty_in_room_five d = \<lparr> rooms = replicate 5 [] @ [replicate 20 d] @ replicate 58 [] \<rparr>"

definition one_in_room_zero :: "'d \<Rightarrow> 'd Packet" where
  "one_in_room_zero d = \<lparr> rooms = [d] # replicate 63 [] \<rparr>"

subsection \<open>Spawning instances: \<open>newData\<close>\<close>

text \<open>
  \<open>this.rooms[roomIdx].push(data)\<close>: a room index outside the array reads
  \<open>undefined\<close>, and the call of \<open>push\<close> on it is a \<open>TypeError\<close>. The random
  \<open>animIdx\<close>, \<open>Math.floor(Math.random() * 8)\<close>, is an argument of the model.
\<close>

definition rooms_push :: "int \<Rightarrow> 'd \<Rightarrow> 'd Packet \<Rightarrow> js_error + 'd Packet" where
  "rooms_push roomNo data pkt =
     (if 0 \<le> roomNo \<and> nat roomNo < length (rooms pkt)
      then Inr (pkt\<lparr>rooms := (rooms pkt)[nat roomNo := rooms pkt ! nat roomNo @ [data]]\<rparr>)
      else Inl TypeError)"

definition FlowerPacket_newData ::
  "string \<Rightarrow> vec3 \<Rightarrow> bool \<Rightarrow> int \<Rightarrow> nat \<Rightarrow> nat \<Rightarrow> FlowerData Packet
     \<Rightarrow> js_error + FlowerData Packet" where
  "FlowerPacket_newData stage p isPink roomNo item anim pkt =
     (let ty0 = (if isPink then PINK else WHITE);
          ty = (if stage = ''sea'' \<and> roomNo = 0x21 \<and> isPink then BESSOU else ty0);
          data = \<lparr> flags = FlowerFlags_needsGroundCheck, animIdx = anim, pos = p,
                   itemIdx = item, flowerType = ty, particleLifetime = 0 \<rparr>
      in rooms_push roomNo data pkt)"

definition TreePacket_newData ::
  "vec3 \<Rightarrow> nat \<Rightarrow> int \<Rightarrow> nat \<Rightarrow> TreeData Packet \<Rightarrow> js_error + TreeData Packet" where
  "TreePacket_newData p initialStatus roomNo anim pkt =
     (let data = \<lparr> flags = TreeFlags_needsGroundCheck, animIdx = anim, pos = p,
                   status = initialStatus, trunkAlpha = 0xFF, shadowModelMtx = mat4_create \<rparr>
      in rooms_push roomNo data pkt)"

definition GrassPacket_newData ::
  "vec3 \<Rightarrow> int \<Rightarrow> nat \<Rightarrow> nat \<Rightarrow> GrassData Packet \<Rightarrow> js_error + GrassData Packet" where
  "GrassPacket_newData p roomNo item anim pkt =
     (let data = \<lparr> flags = GrassFlags_needsGroundCheck, animIdx = anim, pos = p,
                   itemIdx = item \<rparr>
      in rooms_push roomNo data pkt)"

definition BushPacket_newData ::
  "vec3 \<Rightarrow> int \<Rightarrow> nat \<Rightarrow> BushData Packet \<Rightarrow> js_error + BushData Packet" where
  "BushPacket_newData p roomNo anim pkt =
     (let data = \<lparr> flags = TreeFlags_needsGroundCheck, animIdx = anim, pos = p,
                   status = 0, trunkAlpha = 0xFF, shadowModelMtx = mat4_create,
                   roomIdx = nat roomNo \<rparr>
      in rooms_push roomNo data pkt)"

section \<open>The grass actor (WindWaker/d_a.ts)\<close>

text \<open>
  The part of \<open>dGlobals\<close> that \<open>d_a_grass.subload\<close> uses, and the fields of the
  actor it reads (the actor's position is \<open>acPos\<close> here, \<open>pos\<close> being the field of
  an instance). \<open>rotY\<close> is \<open>this.rot[1]\<close>.
\<close>

record dGlobals =
  stageName :: string
  flowerPacket :: "FlowerData Packet"
  treePacket :: "TreeData Packet"
  grassPacket :: "GrassData Packet"

record d_a_grass =
  parameters :: "32 word"
  acPos :: vec3
  rotY :: real
  roomNo :: int

definition kSpawnPatterns :: "(nat \<times> nat) list" where
  "kSpawnPatterns = [(0, 1), (0, 7), (1, 15), (2, 3), (3, 7), (4, 11), (5, 7), (6, 5)]"

definition kSpawnOffsets :: "rvec3 list list" where
  "kSpawnOffsets =
     [[(0, 0, 0), (3, 0, -50), (-2, 0, 50), (50, 0, 27), (52, 0, -25), (-50, 0, 22),
       (-50, 0, -29)],
      [(-18, 0, 76), (-15, 0, 26), (133, 0, 0), (80, 0, 23), (86, 0, -83), (33, 0, -56),
       (83, 0, -27), (-120, 0, -26), (-18, 0, -65), (-20, 0, -21), (-73, 0, 1),
       (-67, 0, -102), (-21, 0, 126), (-120, 0, -78), (-70, 0, -49), (32, 0, 103),
       (34, 0, 51), (-72, 0, 98), (-68, 0, 47), (33, 0, -5), (135, 0, -53)],
      [(-75, 0, -50), (75, 0, -25), (14, 0, 106)],
      [(-24, 0, -28), (27, 0, -28), (-21, 0, 33), (-18, 0, -34), (44, 0, -4), (41, 0, 10),
       (24, 0, 39)],
      [(-55, 0, -22), (-28, 0, -50), (-77, 0, 11), (55, 0, -44), (83, 0, -71), (11, 0, -48),
       (97, 0, -34), (-74, 0, -57), (31, 0, 58), (59, 0, 30), (13, 0, 23), (-12, 0, 54),
       (55, 0, 97), (10, 0, 92), (33, 0, -10), (-99, 0, -27), (40, 0, -87)],
      [(0, 0, 3), (-26, 0, -29), (7, 0, -25), (31, 0, -5), (-7, 0, 40), (-35, 0, 15),
       (23, 0, 32)],
      [(-40, 0, 0), (0, 0, 0), (80, 0, 0), (-80, 0, 0), (40, 0, 0)]]"

text \<open>\<open>enum FoliageType\<close> of \<open>subload\<close>, as the two bits of the parameter word.\<close>

definition FoliageType_Grass :: nat where "FoliageType_Grass = 0"
definition FoliageType_Tree :: nat where "FoliageType_Tree = 1"
definition FoliageType_WhiteFlower :: nat where "FoliageType_WhiteFlower = 2"
definition FoliageType_PinkFlower :: nat where "FoliageType_PinkFlower = 3"

text \<open>
  The three fields of the parameter word. \<open>>>\<close> of JavaScript shifts the 32-bit value
  as a signed number; under the mask \<open>0x3f\<close> the bits 6 to 11 are the same as with a
  logical shift.
\<close>

definition spawnPatternId_of :: "32 word \<Rightarrow> nat" where
  "spawnPatternId_of params = unat (drop_bit 0 (params AND 0x00F))"

definition foliageType_of :: "32 word \<Rightarrow> nat" where
  "foliageType_of params = unat (drop_bit 4 (params AND 0x030))"

definition itemIdx_of :: "32 word \<Rightarrow> nat" where
  "itemIdx_of params = unat (drop_bit 6 params AND 0x3f)"

text \<open>\<open>vec3.add\<close> of an offset and a position.\<close>

definition vec3_add :: "rvec3 \<Rightarrow> vec3 \<Rightarrow> vec3" where
  "vec3_add offset p =
     (case offset of (ox, oy, oz) \<Rightarrow> case p of (px, py, pz) \<Rightarrow>
        (coord_add px ox, coord_add py oy, coord_add pz oz))"

text \<open>
  \<open>vec3.transformMat4(out, a, mat4.fromYRotation(m, rad))\<close> of gl-matrix: the rotation
  of \<open>a\<close> about the Y axis.
\<close>

definition rotate_y :: "real \<Rightarrow> rvec3 \<Rightarrow> rvec3" where
  "rotate_y rad a =
     (case a of (ax, ay, az) \<Rightarrow>
        (cos rad * ax + sin rad * az, ay, - sin rad * ax + cos rad * az))"

text \<open>
  A \<open>for (let j = 0; j < count; j++)\<close> loop whose body may throw, over the state
  \<open>'s\<close>.
\<close>

fun for_loop :: "nat \<Rightarrow> nat \<Rightarrow> (nat \<Rightarrow> 's \<Rightarrow> js_error + 's) \<Rightarrow> 's \<Rightarrow> js_error + 's" where
  "for_loop j 0 body s = Inr s"
| "for_loop j (Suc k) body s =
     (case body j s of Inl e \<Rightarrow> Inl e | Inr s' \<Rightarrow> for_loop (Suc j) k body s')"

text \<open>\<open>offsets[j]\<close>, whose components are read at once: \<open>undefined\<close> has none.\<close>

definition offset_at :: "rvec3 list \<Rightarrow> nat \<Rightarrow> js_error + rvec3" where
  "offset_at offsets j = (if j < length offsets then Inr (offsets ! j) else Inl TypeError)"

text \<open>
  \<open>subload\<close>; \<open>rnd j\<close> is the random \<open>animIdx\<close> of the \<open>j\<close>-th instance. The result
  \<open>cPhs__Status.Next\<close> is the same on every path that returns and is left out.
\<close>

definition subload :: "(nat \<Rightarrow> nat) \<Rightarrow> d_a_grass \<Rightarrow> dGlobals \<Rightarrow> js_error + dGlobals" where
  "subload rnd this globals =
     (let spawnPatternId = spawnPatternId_of (parameters this);
          ty = foliageType_of (parameters this);
          item = itemIdx_of (parameters this)
      in if spawnPatternId \<ge> length kSpawnPatterns then Inl TypeError
         else case kSpawnPatterns ! spawnPatternId of (grp, count) \<Rightarrow>
           let offsets = kSpawnOffsets ! grp in
           if ty = FoliageType_Grass then
             for_loop 0 count
               (\<lambda>j g. case offset_at offsets j of
                         Inl e \<Rightarrow> Inl e
                       | Inr offset \<Rightarrow>
                           let p = vec3_add offset (acPos this) in
                           map_sum id (\<lambda>pkt. g\<lparr>grassPacket := pkt\<rparr>)
                             (GrassPacket_newData p (roomNo this) item (rnd j) (grassPacket g)))
               globals
           else if ty = FoliageType_Tree then
             (let rotation = rotY this / 0x7FFF * pi in
              for_loop 0 count
                (\<lambda>j g. case offset_at offsets j of
                          Inl e \<Rightarrow> Inl e
                        | Inr off \<Rightarrow>
                            let offset = rotate_y rotation off;
                                p = vec3_add offset (acPos this) in
                            map_sum id (\<lambda>pkt. g\<lparr>treePacket := pkt\<rparr>)
                              (TreePacket_newData p 0 (roomNo this) (rnd j) (treePacket g)))
                globals)
           else if ty = FoliageType_WhiteFlower \<or> ty = FoliageType_PinkFlower then
             for_loop 0 count
               (\<lambda>j g. let isPink = (ty = FoliageType_PinkFlower) in
                       case offset_at offsets j of
                         Inl e \<Rightarrow> Inl e
                       | Inr offset \<Rightarrow>
                           let p = vec3_add offset (acPos this) in
                           map_sum id (\<lambda>pkt. g\<lparr>flowerPacket := pkt\<rparr>)
                             (FlowerPacket_newData (stageName g) p isPink (roomNo this) item
                                (rnd j) (flowerPacket g)))
               globals
           else Inr globals)"

text \<open>The \<open>j\<close>-th instance that the grass branch of \<open>subload\<close> creates.\<close>

definition grass_instance :: "(nat \<Rightarrow> nat) \<Rightarrow> d_a_grass \<Rightarrow> rvec3 list \<Rightarrow> nat \<Rightarrow> nat \<Rightarrow> GrassData" where
  "grass_instance rnd this offsets item j =
     \<lparr> flags = GrassFlags_needsGroundCheck, animIdx = rnd j,
       pos = vec3_add (offsets ! j) (acPos this), itemIdx = item \<rparr>"

text \<open>Sample inputs: empty packets of 64 rooms and a grass actor with parameter 2.\<close>

definition sample_globals :: dGlobals where
  "sample_globals = \<lparr> stageName = ''sea'', flowerPacket = Packet_new, treePacket = Packet_new,
                       grassPacket = Packet_new \<rparr>"

definition sample_grass_actor :: d_a_grass where
  "sample_grass_actor = \<lparr> parameters = 0x2, acPos = (Fin 100, Fin 0, Fin 200), rotY = 0x2000,
                           roomNo = 7 \<rparr>"

section \<open>The legacy flower packet (j3d/WindWaker/Grass.ts)\<close>

text \<open>
  \<open>datas\<close> is \<open>new Array(kMaxFlowerDatas)\<close>: a slot is \<open>None\<close> while it is empty.
  An assignment \<open>this.datas[index] = ...\<close> with a negative \<open>index\<close> does not write
  a slot of the array: it sets the property of that name on the array object, which
  no loop over the slots reads. \<open>datas_props\<close> holds these properties. \<open>warnings\<close>
  is what \<open>console.warn\<close> has printed. The instance record is the one of the
  production flower packet (the legacy record has a \<open>nextData\<close> that is always
  \<open>null\<close>).
\<close>

definition kMaxFlowerDatas :: nat where
  "kMaxFlowerDatas = 200"

record LegacyFlowerPacket =
  datas :: "FlowerData option list"
  datas_props :: "int \<rightharpoonup> FlowerData"
  warnings :: "string list"

definition LegacyFlowerPacket_new :: LegacyFlowerPacket where
  "LegacyFlowerPacket_new =
     \<lparr> datas = replicate kMaxFlowerDatas None, datas_props = Map.empty, warnings = [] \<rparr>"

text \<open>
  \<open>this.datas.findIndex(d => d === undefined)\<close>, scanning from index \<open>i\<close>: the
  first empty slot, or \<open>-1\<close>.
\<close>

fun findIndex_undefined :: "'a option list \<Rightarrow> nat \<Rightarrow> int" where
  "findIndex_undefined [] i = - 1"
| "findIndex_undefined (d # ds) i =
     (if d = None then int i else findIndex_undefined ds (Suc i))"

text \<open>
  \<open>setData\<close> returns the new record and the packet. An index at or beyond the length
  of the array makes the array longer, the slots between staying empty.
\<close>

definition LegacyFlowerPacket_setData ::
  "string \<Rightarrow> int \<Rightarrow> vec3 \<Rightarrow> FlowerType \<Rightarrow> int \<Rightarrow> nat \<Rightarrow> nat \<Rightarrow> LegacyFlowerPacket
     \<Rightarrow> FlowerData \<times> LegacyFlowerPacket" where
  "LegacyFlowerPacket_setData stage index p ty0 room item anim pkt =
     (let ty = (if stage = ''sea'' \<and> room = 0x21 then BESSOU else ty0);
          data = \<lparr> flags = FlowerFlags_needsGroundCheck, animIdx = anim, pos = p,
                   itemIdx = item, flowerType = ty, particleLifetime = 0 \<rparr>
      in if index < 0 then (data, pkt\<lparr>datas_props := (datas_props pkt)(index \<mapsto> data)\<rparr>)
         else if nat index < length (datas pkt)
         then (data, pkt\<lparr>datas := (datas pkt)[nat index := Some data]\<rparr>)
         else (data, pkt\<lparr>datas := datas pkt
                        @ replicate (nat index - length (datas pkt)) None @ [Some data]\<rparr>))"

definition LegacyFlowerPacket_newData ::
  "string \<Rightarrow> vec3 \<Rightarrow> FlowerType \<Rightarrow> int \<Rightarrow> nat \<Rightarrow> nat \<Rightarrow> LegacyFlowerPacket
     \<Rightarrow> FlowerData \<times> LegacyFlowerPacket" where
  "LegacyFlowerPacket_newData stage p ty room item anim pkt =
     (let dataIdx = findIndex_undefined (datas pkt) 0;
          pkt1 = (if dataIdx = - 1
                  then pkt\<lparr>warnings := warnings pkt @ [''Failed to allocate flower data'']\<rparr>
                  else pkt)
      in LegacyFlowerPacket_setData stage dataIdx p ty room item anim pkt1)"

text \<open>Sample input: a packet whose 200 slots hold a flower.\<close>

definition full_legacy_packet :: LegacyFlowerPacket where
  "full_legacy_packet =
     \<lparr> datas = replicate kMaxFlowerDatas (Some sample_flower), datas_props = Map.empty,
       warnings = [] \<rparr>"

section \<open>Sequence objects (Common/JSYSTEM/JStudio.ts, class STBObject)\<close>

datatype EStatus = EStatus_Still | EStatus_End | EStatus_Wait | EStatus_Suspend
  | EStatus_Inactive

text \<open>
  What a tick does outside the object, in order: the hooks of the adaptor it calls, the
  object-specific \<open>do_paragraph\<close> of the subclass, and, as ghost entries, the values
  assigned to \<open>mStatus\<close>.
\<close>

datatype stb_event =
    adaptor_do_begin
  | adaptor_do_end
  | adaptor_updateVariableValue real
  | adaptor_do_update real
  | adaptor_do_data nat DataView
  | do_paragraph nat nat nat
  | status_set EStatus

text \<open>
  \<open>hasAdaptor\<close> says whether \<open>mAdaptor\<close> is set. Frame counts are JavaScript
  numbers and need not be whole: they are \<open>real\<close>.
\<close>

record STBObject =
  hasAdaptor :: bool
  mFlags :: nat
  mStatus :: EStatus
  mIsSequence :: bool
  mSuspendFrames :: real
  mData :: DataView
  pSequence :: nat
  pSequence_next :: nat
  mWait :: real
  events :: "stb_event list"

text \<open>
  The object that the constructor builds from a block object and an adaptor: the
  sequence starts behind the 12 bytes of the block header and the id, padded to 4 bytes.
\<close>

definition STBObject_new :: "nat \<Rightarrow> nat \<Rightarrow> DataView \<Rightarrow> STBObject" where
  "STBObject_new flag idLength view =
     \<lparr> hasAdaptor = True, mFlags = flag, mStatus = EStatus_Still, mIsSequence = False,
       mSuspendFrames = 0, mData = view, pSequence = 0,
       pSequence_next = 0xC + align (idLength + 1) 4, mWait = 0, events = [] \<rparr>"

definition emit :: "stb_event list \<Rightarrow> STBObject \<Rightarrow> STBObject" where
  "emit es st = st\<lparr>events := events st @ es\<rparr>"

definition set_status :: "EStatus \<Rightarrow> STBObject \<Rightarrow> STBObject" where
  "set_status s st = emit [status_set s] (st\<lparr>mStatus := s\<rparr>)"

definition do_begin :: "STBObject \<Rightarrow> STBObject" where
  "do_begin st = (if hasAdaptor st then emit [adaptor_do_begin] st else st)"

definition do_end :: "STBObject \<Rightarrow> STBObject" where
  "do_end st = (if hasAdaptor st then emit [adaptor_do_end] st else st)"

definition do_wait :: "real \<Rightarrow> STBObject \<Rightarrow> STBObject" where
  "do_wait frameCount st =
     (if hasAdaptor st
      then emit [adaptor_updateVariableValue frameCount, adaptor_do_update frameCount] st
      else st)"

text \<open>\<open>this.mAdaptor.log(...)\<close>: a call on \<open>undefined\<close> without an adaptor.\<close>

definition adaptor_log :: "bool \<Rightarrow> js_error + unit" where
  "adaptor_log has = (if has then Inr () else Inl TypeError)"

text \<open>
  Modelled from the spec: \<open>file.buffer.createDataView\<close> belongs to
  \<open>ArrayBufferSlice\<close>, which is not part of the sources at hand; the specification
  says that paragraph \<open>0x81\<close> forwards the embedded blob. The blob is the \<open>len\<close>
  bytes from \<open>offs\<close>, and a range outside the data is a \<open>RangeError\<close>, as for the
  \<open>DataView\<close> constructor.
\<close>

definition createDataView :: "DataView \<Rightarrow> nat \<Rightarrow> int \<Rightarrow> js_error + DataView" where
  "createDataView view offs len =
     (if 0 \<le> len \<and> offs + nat len \<le> length view then Inr (take (nat len) (drop offs view))
      else Inl RangeError)"

text \<open>
  \<open>process_paragraph_reserved_\<close> and the paragraph loop of \<open>process_sequence\<close> only
  read the data and call hooks, so they are functions from the list of events to the
  list of events.
\<close>

definition process_paragraph_reserved ::
  "bool \<Rightarrow> DataView \<Rightarrow> nat \<Rightarrow> nat \<Rightarrow> nat \<Rightarrow> stb_event list \<Rightarrow> js_error + stb_event list"
  where
  "process_paragraph_reserved has view dSize dOffset param evs =
     (if param = 0x81 then
        (case getUint16 view (dOffset + 2) of
           Inl e \<Rightarrow> Inl e
         | Inr idSize \<Rightarrow>
             if idSize \<noteq> 4 then Inl AssertionError
             else
               (case getUint32 view (dOffset + 4) of
                  Inl e \<Rightarrow> Inl e
                | Inr ident \<Rightarrow>
                    let contentOffset = dOffset + 4 + align idSize 4;
                        contentSize = int dSize - (int contentOffset - int dOffset)
                    in (case createDataView view contentOffset contentSize of
                          Inl e \<Rightarrow> Inl e
                        | Inr content \<Rightarrow>
                            (case adaptor_log has of
                               Inl e \<Rightarrow> Inl e
                             | Inr _ \<Rightarrow>
                                 Inr (if has then evs @ [adaptor_do_data ident content]
                                      else evs)))))
      else Inr evs)"

function paragraph_loop ::
  "bool \<Rightarrow> DataView \<Rightarrow> nat \<Rightarrow> nat \<Rightarrow> stb_event list \<Rightarrow> js_error + stb_event list" where
  "paragraph_loop has view next byteIdx evs =
     (if byteIdx < next then
        (case TParagraph_parse view byteIdx of
           Inl e \<Rightarrow> Inl e
         | Inr para \<Rightarrow>
             (case (if type para \<le> 0xff
                    then process_paragraph_reserved has view (dataSize para) (dataOffset para)
                           (type para) evs
                    else Inr (evs @ [do_paragraph (dataSize para) (dataOffset para) (type para)]))
              of
                Inl e \<Rightarrow> Inl e
              | Inr evs' \<Rightarrow> paragraph_loop has view next (nextOffset para) evs'))
      else Inr evs)"
  by pat_completeness auto
termination
proof (relation "measure (\<lambda>(has, view, next, byteIdx, evs). next - byteIdx)")
  show "wf (measure (\<lambda>(has, view, next, byteIdx, evs). next - byteIdx))"
    by simp
next
  fix has :: bool and view :: DataView and "next" byteIdx :: nat
    and evs :: "stb_event list" and para :: TParagraph and x evs' :: "stb_event list"
  assume lt: "byteIdx < next" and p: "TParagraph_parse view byteIdx = Inr para"
  from p have "byteIdx < nextOffset para"
    by (auto simp: TParagraph_parse_def mk_paragraph_def split: sum.splits if_splits)
  with lt show "((has, view, next, nextOffset para, evs'), (has, view, next, byteIdx, evs))
         \<in> measure (\<lambda>(has, view, next, byteIdx, evs). next - byteIdx)"
    by simp
qed

declare paragraph_loop.simps [simp del]

text \<open>\<open>enum ESequenceCmd\<close>.\<close>

definition ESequenceCmd_End :: nat where "ESequenceCmd_End = 0"
definition ESequenceCmd_SetFlag :: nat where "ESequenceCmd_SetFlag = 1"
definition ESequenceCmd_Wait :: nat where "ESequenceCmd_Wait = 2"
definition ESequenceCmd_Skip :: nat where "ESequenceCmd_Skip = 3"
definition ESequenceCmd_Suspend :: nat where "ESequenceCmd_Suspend = 4"
definition ESequenceCmd_Paragraph :: nat where "ESequenceCmd_Paragraph = 0x80"

lemmas ESequenceCmd_defs = ESequenceCmd_End_def ESequenceCmd_SetFlag_def ESequenceCmd_Wait_def
  ESequenceCmd_Skip_def ESequenceCmd_Suspend_def ESequenceCmd_Paragraph_def

text \<open>
  \<open>process_sequence\<close>: the command byte and the 24-bit parameter at \<open>pSequence\<close>,
  the offset of the next command, then the command. An unsupported command only
  prints a message.
\<close>

definition process_sequence :: "STBObject \<Rightarrow> js_error + STBObject" where
  "process_sequence st =
     (let byteIdx = pSequence st in
      case getUint8 (mData st) byteIdx of
        Inl e \<Rightarrow> Inl e
      | Inr cmd \<Rightarrow>
          (case getUint32 (mData st) byteIdx of
             Inl e \<Rightarrow> Inl e
           | Inr w \<Rightarrow>
               let param = w AND 0xFFFFFF;
                   nxt = (if cmd \<noteq> 0
                          then (if cmd \<le> 0x7f then byteIdx + 4 else byteIdx + 4 + param)
                          else 0);
                   st1 = st\<lparr>pSequence_next := nxt\<rparr>
               in if cmd = ESequenceCmd_End \<or> cmd = ESequenceCmd_SetFlag
                     \<or> cmd = ESequenceCmd_Skip
                  then (case adaptor_log (hasAdaptor st1) of
                          Inl e \<Rightarrow> Inl e
                        | Inr _ \<Rightarrow> Inr st1)
                  else if cmd = ESequenceCmd_Wait
                  then (case adaptor_log (hasAdaptor st1) of
                          Inl e \<Rightarrow> Inl e
                        | Inr _ \<Rightarrow> Inr (st1\<lparr>mWait := real param\<rparr>))
                  else if cmd = ESequenceCmd_Suspend
                  then (case adaptor_log (hasAdaptor st1) of
                          Inl e \<Rightarrow> Inl e
                        | Inr _ \<Rightarrow>
                            Inr (st1\<lparr>mSuspendFrames := mSuspendFrames st1 + real param\<rparr>))
                  else if cmd = ESequenceCmd_Paragraph
                  then (case paragraph_loop (hasAdaptor st1) (mData st1) nxt (byteIdx + 4)
                               (events st1) of
                          Inl e \<Rightarrow> Inl e
                        | Inr evs \<Rightarrow> Inr (st1\<lparr>events := evs\<rparr>))
                  else Inr st1))"

text \<open>
  \<open>forward\<close> is a loop \<open>while (true)\<close> around a loop \<open>while (true)\<close>. One pass
  through the head of the outer loop, up to the inner loop, either returns or goes on
  into the inner loop. One pass through the body of the inner loop returns, or leaves
  the inner loop by \<open>break\<close> (back to the head of the outer loop), or starts the body
  again with the frame count reduced and \<open>hasWaited\<close> set.
\<close>

datatype head_result = Head_return bool STBObject | Head_enter STBObject

datatype body_result = Body_return bool STBObject | Body_break STBObject
  | Body_again STBObject real

text \<open>\<open>controlSuspended\<close> is \<open>this.mControl && this.mControl.isSuspended()\<close>.\<close>

definition forward_head :: "bool \<Rightarrow> STBObject \<Rightarrow> real \<Rightarrow> js_error + head_result" where
  "forward_head controlSuspended st frameCount =
     (if mFlags st AND 0x8000 \<noteq> 0 then
        (if mStatus st \<noteq> EStatus_Inactive
         then (let st1 = set_status EStatus_Inactive st
               in Inr (Head_return True (if mIsSequence st1 then do_end st1 else st1)))
         else Inr (Head_return True st))
      else
        (case (if mStatus st = EStatus_Inactive
               then (if mIsSequence st then Inr (set_status EStatus_Wait (do_begin st))
                     else Inl AssertionError)
               else Inr st) of
           Inl e \<Rightarrow> Inl e
         | Inr st1 \<Rightarrow>
             if controlSuspended \<or> mSuspendFrames st1 > 0 then
               (if mIsSequence st1 then
                  (if mStatus st1 = EStatus_Wait \<or> mStatus st1 = EStatus_Suspend
                   then Inr (Head_return True
                               (do_wait frameCount (set_status EStatus_Suspend st1)))
                   else Inl AssertionError)
                else Inr (Head_return True st1))
             else Inr (Head_enter st1)))"

definition forward_body :: "STBObject \<Rightarrow> real \<Rightarrow> bool \<Rightarrow> js_error + body_result" where
  "forward_body st frameCount hasWaited =
     (let st1 = st\<lparr>pSequence := pSequence_next st\<rparr> in
      if pSequence st1 = 0 then
        (if mIsSequence st1 then
           (if mStatus st1 = EStatus_Still then Inl AssertionError
            else
              let st2 = (if \<not> hasWaited then do_wait 0 st1 else st1);
                  st3 = st2\<lparr>mIsSequence := False\<rparr>;
                  st4 = set_status EStatus_End st3
              in Inr (Body_return False (do_end st4)))
         else Inr (Body_return False st1))
      else
        (case (if \<not> mIsSequence st1
               then (if mStatus st1 = EStatus_Still
                     then Inr (do_begin (st1\<lparr>mIsSequence := True\<rparr>))
                     else Inl AssertionError)
               else Inr st1) of
           Inl e \<Rightarrow> Inl e
         | Inr st2 \<Rightarrow>
             let st3 = set_status EStatus_Wait st2 in
             (case (if mWait st3 = 0 then process_sequence st3 else Inr st3) of
                Inl e \<Rightarrow> Inl e
              | Inr st4 \<Rightarrow>
                  if mWait st3 = 0 \<and> mWait st4 = 0 then Inr (Body_break st4)
                  else if \<not> mWait st4 > 0 then Inl AssertionError
                  else if frameCount \<ge> mWait st4
                  then Inr (Body_again (do_wait (mWait st4) (st4\<lparr>mWait := 0\<rparr>))
                                       (frameCount - mWait st4))
                  else Inr (Body_return True
                              (do_wait frameCount (st4\<lparr>mWait := mWait st4 - frameCount\<rparr>))))))"

text \<open>
  What is left of the sequence data behind the next command; it gets smaller with
  every command that \<open>process_sequence\<close> runs.
\<close>

definition sequence_left :: "STBObject \<Rightarrow> nat" where
  "sequence_left st =
     (if pSequence_next st = 0 then 0 else Suc (length (mData st) - pSequence_next st))"

text \<open>
  The two loops: \<open>inner\<close> says whether control is at the body of the inner loop or at
  the head of the outer loop.
\<close>

function forward_loop ::
  "bool \<Rightarrow> bool \<Rightarrow> STBObject \<Rightarrow> real \<Rightarrow> bool \<Rightarrow> js_error + bool \<times> STBObject" where
  "forward_loop controlSuspended inner st frameCount hasWaited =
     (if \<not> inner then
        (case forward_head controlSuspended st frameCount of
           Inl e \<Rightarrow> Inl e
         | Inr (Head_return b st') \<Rightarrow> Inr (b, st')
         | Inr (Head_enter st') \<Rightarrow> forward_loop controlSuspended True st' frameCount hasWaited)
      else
        (case forward_body st frameCount hasWaited of
           Inl e \<Rightarrow> Inl e
         | Inr (Body_return b st') \<Rightarrow> Inr (b, st')
         | Inr (Body_break st') \<Rightarrow> forward_loop controlSuspended False st' frameCount hasWaited
         | Inr (Body_again st' frameCount') \<Rightarrow>
             forward_loop controlSuspended True st' frameCount' True))"
  by pat_completeness auto
termination
proof -
  let ?R = "measures [\<lambda>(c :: bool, i :: bool, st, f :: real, h :: bool). sequence_left st,
                      \<lambda>(c, i, st, f, h). if mWait st = 0 then 0 else 1,
                      \<lambda>(c, i, st, f, h). if i then 0 else 1]"
  note stb_simps = set_status_def do_begin_def do_end_def do_wait_def emit_def
  \<comment> \<open>A command that runs lies inside the data, and the next command lies behind it.\<close>
  have seq_left:
    "(if pSequence_next st4 = 0 then 0 else Suc (length (mData st4) - pSequence_next st4))
       < Suc (length (mData st3) - pSequence st3)"
    if ps: "process_sequence st3 = Inr st4" for st3 st4
  proof -
    obtain cmd where c: "getUint8 (mData st3) (pSequence st3) = Inr cmd"
      using ps
      by (cases "getUint8 (mData st3) (pSequence st3)")
        (simp_all add: process_sequence_def Let_def)
    obtain w where w: "getUint32 (mData st3) (pSequence st3) = Inr w"
      using ps c
      by (cases "getUint32 (mData st3) (pSequence st3)")
        (simp_all add: process_sequence_def Let_def)
    from w have len: "pSequence st3 + 4 \<le> length (mData st3)"
      by (simp add: getUint32_def split: if_splits)
    have "mData st4 = mData st3
          \<and> pSequence_next st4 =
              (if cmd \<noteq> 0
               then (if cmd \<le> 0x7f then pSequence st3 + 4
                     else pSequence st3 + 4 + (w AND 0xFFFFFF))
               else 0)"
      using ps c w
      by (auto simp: process_sequence_def Let_def adaptor_log_def
          split: if_splits sum.splits)
    with len show ?thesis by auto
  qed
  \<comment> \<open>The head of the outer loop touches neither the data nor the wait.\<close>
  have head: "sequence_left st' = sequence_left st \<and> mWait st' = mWait st"
    if "forward_head c st f = Inr (Head_enter st')" for c st f st'
    using that
    by (auto simp: forward_head_def sequence_left_def stb_simps Let_def
        split: if_splits sum.splits)
  \<comment> \<open>A pass through the body that does not return: the object \<open>st3\<close> at the test of
      the wait, and what follows.\<close>
  have body_cases:
    "\<exists>st3. pSequence st3 = pSequence_next st \<and> mData st3 = mData st
           \<and> pSequence_next st3 = pSequence_next st \<and> mWait st3 = mWait st
           \<and> pSequence_next st \<noteq> 0
           \<and> (if mWait st3 = 0
               then (\<exists>st4. process_sequence st3 = Inr st4
                       \<and> (if mWait st4 = 0 then r = Body_break st4
                           else r = Body_again (do_wait (mWait st4) (st4\<lparr>mWait := 0\<rparr>))
                                               (f - mWait st4)))
               else r = Body_again (do_wait (mWait st3) (st3\<lparr>mWait := 0\<rparr>))
                                   (f - mWait st3))"
    if b: "forward_body st f h = Inr r"
      and r: "r = Body_break st' \<or> r = Body_again st' f'" for st f h r st' f'
  proof -
    let ?st1 = "st\<lparr>pSequence := pSequence_next st\<rparr>"
    from b r have nz: "pSequence_next st \<noteq> 0"
      by (auto simp: forward_body_def Let_def split: if_splits)
    define st2 where
      "st2 = (if \<not> mIsSequence ?st1 then do_begin (?st1\<lparr>mIsSequence := True\<rparr>) else ?st1)"
    define st3 where "st3 = set_status EStatus_Wait st2"
    have p3: "pSequence st3 = pSequence_next st" "mData st3 = mData st"
      "pSequence_next st3 = pSequence_next st" "mWait st3 = mWait st"
      by (simp_all add: st3_def st2_def stb_simps)
    have b2: "(case (if mWait st3 = 0 then process_sequence st3 else Inr st3) of
                  Inl e \<Rightarrow> Inl e
                | Inr st4 \<Rightarrow>
                    if mWait st3 = 0 \<and> mWait st4 = 0 then Inr (Body_break st4)
                    else if \<not> mWait st4 > 0 then Inl AssertionError
                    else if f \<ge> mWait st4
                    then Inr (Body_again (do_wait (mWait st4) (st4\<lparr>mWait := 0\<rparr>))
                                         (f - mWait st4))
                    else Inr (Body_return True
                                (do_wait f (st4\<lparr>mWait := mWait st4 - f\<rparr>)))) = Inr r"
      using b nz unfolding st3_def st2_def forward_body_def Let_def
      by (simp split: if_splits)
    show ?thesis
    proof (cases "mWait st3 = 0")
      case True
      with b2 obtain st4 where ps: "process_sequence st3 = Inr st4"
        by (cases "process_sequence st3") simp_all
      with b2 True r have "if mWait st4 = 0 then r = Body_break st4
                           else r = Body_again (do_wait (mWait st4) (st4\<lparr>mWait := 0\<rparr>))
                                               (f - mWait st4)"
        by (auto split: if_splits)
      with True ps p3 nz show ?thesis by (intro exI [of _ st3]) auto
    next
      case False
      with b2 r have "r = Body_again (do_wait (mWait st3) (st3\<lparr>mWait := 0\<rparr>))
                                     (f - mWait st3)"
        by (auto split: if_splits)
      with False p3 nz show ?thesis by (intro exI [of _ st3]) auto
    qed
  qed
  \<comment> \<open>A \<open>break\<close> comes after a command.\<close>
  have brk: "sequence_left st' < sequence_left st"
    if b: "forward_body st f h = Inr (Body_break st')" for st f h st'
  proof -
    from body_cases [OF b, of st' 0] obtain st3 st4 where
      p: "pSequence st3 = pSequence_next st" "mData st3 = mData st" "pSequence_next st \<noteq> 0"
      and ps: "process_sequence st3 = Inr st4" and e: "st' = st4"
      by (auto split: if_splits)
    from seq_left [OF ps] p e show ?thesis by (simp add: sequence_left_def)
  qed
  \<comment> \<open>The body starts again after a command, or after the end of a wait that was pending.\<close>
  have again:
    "sequence_left st' < sequence_left st
       \<or> sequence_left st' = sequence_left st \<and> mWait st \<noteq> 0 \<and> mWait st' = 0"
    if b: "forward_body st f h = Inr (Body_again st' f')" for st f h st' f'
  proof -
    from body_cases [OF b, of st' f'] obtain st3 where
      p: "pSequence st3 = pSequence_next st" "mData st3 = mData st" "pSequence_next st \<noteq> 0"
         "pSequence_next st3 = pSequence_next st" "mWait st3 = mWait st"
      and c: "if mWait st3 = 0
               then (\<exists>st4. process_sequence st3 = Inr st4
                       \<and> (if mWait st4 = 0 then Body_again st' f' = Body_break st4
                           else Body_again st' f'
                                = Body_again (do_wait (mWait st4) (st4\<lparr>mWait := 0\<rparr>))
                                             (f - mWait st4)))
               else Body_again st' f'
                    = Body_again (do_wait (mWait st3) (st3\<lparr>mWait := 0\<rparr>)) (f - mWait st3)"
      by auto
    show ?thesis
    proof (cases "mWait st3 = 0")
      case True
      with c obtain st4 where ps: "process_sequence st3 = Inr st4"
        and e: "st' = do_wait (mWait st4) (st4\<lparr>mWait := 0\<rparr>)"
        by (auto split: if_splits)
      from e have "sequence_left st' = sequence_left st4"
        by (simp add: sequence_left_def stb_simps)
      with seq_left [OF ps] p show ?thesis by (simp add: sequence_left_def)
    next
      case False
      with c have e: "st' = do_wait (mWait st3) (st3\<lparr>mWait := 0\<rparr>)" by simp
      then have "sequence_left st' = sequence_left st" "mWait st' = 0"
        using p by (simp_all add: sequence_left_def stb_simps)
      with False p show ?thesis by simp
    qed
  qed
  show ?thesis
  proof (relation ?R)
    show "wf ?R" by simp
  next
    fix controlSuspended inner :: bool and st :: STBObject and frameCount :: real
      and hasWaited :: bool and x2 st'
    assume "\<not> inner" "forward_head controlSuspended st frameCount = Inr x2"
      "x2 = Head_enter st'"
    with head [of controlSuspended st frameCount st']
    show "((controlSuspended, True, st', frameCount, hasWaited),
           (controlSuspended, inner, st, frameCount, hasWaited)) \<in> ?R"
      by simp
  next
    fix controlSuspended inner :: bool and st :: STBObject and frameCount :: real
      and hasWaited :: bool and x2 st'
    assume "\<not> \<not> inner" "forward_body st frameCount hasWaited = Inr x2"
      "x2 = Body_break st'"
    with brk [of st frameCount hasWaited st']
    show "((controlSuspended, False, st', frameCount, hasWaited),
           (controlSuspended, inner, st, frameCount, hasWaited)) \<in> ?R"
      by simp
  next
    fix controlSuspended inner :: bool and st :: STBObject and frameCount :: real
      and hasWaited :: bool and x2 st' frameCount'
    assume "\<not> \<not> inner" "forward_body st frameCount hasWaited = Inr x2"
      "x2 = Body_again st' frameCount'"
    with again [of st frameCount hasWaited st' frameCount']
    show "((controlSuspended, True, st', frameCount', True),
           (controlSuspended, inner, st, frameCount, hasWaited)) \<in> ?R"
      by auto
  qed
qed

declare forward_loop.simps [simp del]

text \<open>\<open>forward(frameCount)\<close>: the result and the object after the tick.\<close>

definition STBObject_forward :: "bool \<Rightarrow> STBObject \<Rightarrow> real \<Rightarrow> js_error + bool \<times> STBObject" where
  "STBObject_forward controlSuspended st frameCount =
     forward_loop controlSuspended False st frameCount False"

text \<open>
  Sample input: an object with a 3-byte id, so that its sequence starts at byte 16, whose
  first command word is \<open>00 00 00 00\<close>.
\<close>

definition end_first_object :: STBObject where
  "end_first_object = STBObject_new 0 3 (replicate 16 0xFF @ [0, 0, 0, 0])"

section \<open>Properties\<close>

subsection \<open>Paragraph headers\<close>

lemma not_top_bit_mask: "NOT (0x80000000 :: 32 word) = mask 31"
  by (simp add: mask_eq_exp_minus_1 not_eq_complement)

lemma mask_top_bit_mod: "mask_top_bit n = n mod 2 ^ 31"
proof -
  have "(word_of_nat n :: 32 word) AND NOT 0x80000000 = take_bit 31 (word_of_nat n)"
    by (simp only: not_top_bit_mask take_bit_eq_mask)
  then have "mask_top_bit n = unat (take_bit 31 (word_of_nat n :: 32 word))"
    by (simp only: mask_top_bit_def)
  also have "\<dots> = take_bit 31 (unat (word_of_nat n :: 32 word))"
    by (simp only: unsigned_take_bit_eq)
  also have "\<dots> = take_bit 31 (take_bit 32 n)"
    by (simp only: unsigned_of_nat) simp
  also have "\<dots> = take_bit 31 n"
    by (simp add: take_bit_take_bit)
  finally show ?thesis by (simp only: take_bit_eq_mod)
qed

lemma and_0x8000_iff: "(s::nat) AND 0x8000 = 0 \<longleftrightarrow> \<not> bit s 15"
proof -
  have "(0x8000::nat) = 2 ^ 15" by simp
  then show ?thesis by (simp only: and_exp_eq_0_iff_not_bit)
qed

lemma parse_16bit_form:
  assumes "getUint16 view byteIdx = Inr s" and "\<not> bit s 15"
    and "getUint16 view (byteIdx + 2) = Inr ty"
  shows "TParagraph_parse view byteIdx =
           Inr \<lparr> type = ty, dataSize = s,
                 dataOffset = (if s = 0 then 0 else byteIdx + 4),
                 nextOffset = byteIdx + 4 + align s 4 \<rparr>"
  using assms
  by (simp add: TParagraph_parse_def mk_paragraph_def align_def and_0x8000_iff)

lemma parse_32bit_form:
  assumes "getUint16 view byteIdx = Inr s" and "bit s 15"
    and "getUint32 view byteIdx = Inr s32"
    and "getUint32 view (byteIdx + 4) = Inr ty"
  shows "TParagraph_parse view byteIdx =
           Inr \<lparr> type = ty, dataSize = s32 mod 2 ^ 31,
                 dataOffset = (if s32 mod 2 ^ 31 = 0 then 0 else byteIdx + 8),
                 nextOffset = byteIdx + 8 + align (s32 mod 2 ^ 31) 4 \<rparr>"
  using assms
  by (simp add: TParagraph_parse_def mk_paragraph_def align_def and_0x8000_iff
      mask_top_bit_mod)

lemma parse_example_32bit:
  "TParagraph_parse ([0x80, 0x00, 0x00, 0x10, a, b, c, d] @ rest) 0 =
     Inr \<lparr> type = unat a * 16777216 + unat b * 65536 + unat c * 256 + unat d,
           dataSize = 0x10, dataOffset = 8, nextOffset = 24 \<rparr>"
  by (simp add: TParagraph_parse_def mk_paragraph_def align_def mask_top_bit_mod
      getUint16_def getUint32_def)

lemma parse_example_16bit:
  "TParagraph_parse ([0x00, 0x10, a, b] @ rest) 0 =
     Inr \<lparr> type = unat a * 256 + unat b, dataSize = 0x10, dataOffset = 4,
           nextOffset = 20 \<rparr>"
  by (simp add: TParagraph_parse_def mk_paragraph_def align_def getUint16_def)

text \<open>
  Claim C5. \<open>TParagraph.parse\<close> reads the first u16 \<open>s\<close> at the paragraph offset.
  When bit 15 of \<open>s\<close> is clear the header has the 16-bit form: the size is \<open>s\<close>, the
  type is the u16 at offset + 2 and the payload region starts at offset + 4 (the next
  paragraph follows at offset + 4 + the size rounded up to 4 bytes). When bit 15 is set
  the header has the 32-bit form: the size is the u32 at the offset with its top bit
  masked off, the type is the u32 at offset + 4 and the payload region starts at
  offset + 8. A paragraph of size 0 has no payload, and its \<open>dataOffset\<close> field is 0.
  In particular the bytes \<open>80 00 00 10\<close> followed by four type bytes decode to size
  \<open>0x10\<close> with the type read as a full u32 at offset + 4, and the bytes \<open>00 10\<close>
  followed by two type bytes decode to size \<open>0x10\<close> with the type read as a u16 at
  offset + 2.
\<close>

theorem TParagraph_parse_header_form:
  "(getUint16 view byteIdx = Inr s \<and> \<not> bit s 15 \<and> getUint16 view (byteIdx + 2) = Inr ty16
      \<longrightarrow> TParagraph_parse view byteIdx =
            Inr \<lparr> type = ty16, dataSize = s,
                  dataOffset = (if s = 0 then 0 else byteIdx + 4),
                  nextOffset = byteIdx + 4 + align s 4 \<rparr>)
   \<and> (getUint16 view byteIdx = Inr s \<and> bit s 15 \<and> getUint32 view byteIdx = Inr s32
        \<and> getUint32 view (byteIdx + 4) = Inr ty32
      \<longrightarrow> TParagraph_parse view byteIdx =
            Inr \<lparr> type = ty32, dataSize = s32 mod 2 ^ 31,
                  dataOffset = (if s32 mod 2 ^ 31 = 0 then 0 else byteIdx + 8),
                  nextOffset = byteIdx + 8 + align (s32 mod 2 ^ 31) 4 \<rparr>)
   \<and> TParagraph_parse ([0x80, 0x00, 0x00, 0x10, a, b, c, d] @ rest) 0 =
         Inr \<lparr> type = unat a * 16777216 + unat b * 65536 + unat c * 256 + unat d,
               dataSize = 0x10, dataOffset = 8, nextOffset = 24 \<rparr>
   \<and> TParagraph_parse ([0x00, 0x10, a, b] @ rest) 0 =
         Inr \<lparr> type = unat a * 256 + unat b, dataSize = 0x10, dataOffset = 4,
               nextOffset = 20 \<rparr>"
  using parse_16bit_form [of view byteIdx s ty16]
    parse_32bit_form [of view byteIdx s s32 ty32]
    parse_example_32bit [of a b c d rest] parse_example_16bit [of a b rest]
  by blast

theorem TParagraph_parse_header_form_witness:
  "TParagraph_parse [0x00, 0x08, 0x01, 0x02, 0, 0, 0, 0, 0, 0, 0, 0] 0 =
     Inr \<lparr> type = 258, dataSize = 8, dataOffset = 4, nextOffset = 12 \<rparr>
   \<and> TParagraph_parse [0xFF, 0xFF, 0x80, 0x00, 0x00, 0x06, 0x06, 0x00, 0x00, 0x01] 2 =
     Inr \<lparr> type = 0x06000001, dataSize = 6, dataOffset = 10, nextOffset = 18 \<rparr>"
proof -
  have r16: "getUint16 [0x00, 0x08, 0x01, 0x02, 0, 0, 0, 0, 0, 0, 0, 0] 0 = Inr 8"
    and t16: "getUint16 [0x00, 0x08, 0x01, 0x02, 0, 0, 0, 0, 0, 0, 0, 0] (0 + 2) = Inr 258"
    by (simp_all add: getUint16_def)
  have b16: "\<not> bit (8::nat) 15"
    by (simp add: bit_iff_odd)
  have r32: "getUint16 [0xFF, 0xFF, 0x80, 0x00, 0x00, 0x06, 0x06, 0x00, 0x00, 0x01] 2
               = Inr 0x8000"
    by (simp add: getUint16_def)
  have b32: "bit (0x8000::nat) 15"
    by (simp add: bit_iff_odd)
  have s32: "getUint32 [0xFF, 0xFF, 0x80, 0x00, 0x00, 0x06, 0x06, 0x00, 0x00, 0x01] 2
               = Inr 0x80000006"
    and t32: "getUint32 [0xFF, 0xFF, 0x80, 0x00, 0x00, 0x06, 0x06, 0x00, 0x00, 0x01]
               (2 + 4) = Inr 0x06000001"
    by (simp_all add: getUint32_def)
  have a1: "align 8 4 = 8" and a2: "align 6 4 = 8"
    by (simp_all add: align_def)
  from TParagraph_parse_header_form
         [of "[0x00, 0x08, 0x01, 0x02, 0, 0, 0, 0, 0, 0, 0, 0]" 0 8 258]
       r16 t16 b16 a1
  have c1: "TParagraph_parse [0x00, 0x08, 0x01, 0x02, 0, 0, 0, 0, 0, 0, 0, 0] 0 =
     Inr \<lparr> type = 258, dataSize = 8, dataOffset = 4, nextOffset = 12 \<rparr>"
    by simp
  from TParagraph_parse_header_form
         [of "[0xFF, 0xFF, 0x80, 0x00, 0x00, 0x06, 0x06, 0x00, 0x00, 0x01]" 2 "0x8000" _
             "0x80000006" "0x06000001"]
       r32 s32 t32 b32 a2
  have c2: "TParagraph_parse [0xFF, 0xFF, 0x80, 0x00, 0x00, 0x06, 0x06, 0x00, 0x00, 0x01] 2 =
     Inr \<lparr> type = 0x06000001, dataSize = 6, dataOffset = 10, nextOffset = 18 \<rparr>"
    by simp
  from c1 c2 show ?thesis by simp
qed

subsection \<open>The List-parameter curve\<close>

lemmas curve_defs = list_parameter_curve_def prepare_def Interpolate_set_def setData_def
  FunctionValue_ListParameter_new_def EInterpolateType_defs

lemmas getValue_defs = curve_value_def getValue_def call_interpFunc_def
  interpolateLinear_impl_def interpolateBSpline_impl_def key_at_def Interpolate_Linear_def
  BSpline_Nonuniform_def jdiv_def Let_def

lemma two_key_curve:
  "list_parameter_curve EInterpolateType_Linear [(0, 1), (1, 5)] =
     \<lparr> interpolate_type = 1, keyCount = 2, keys = Some [0, 1, 1, 5], curKeyIdx = 0,
       interpFunc = Some interpolateLinear \<rparr>"
  by (simp add: curve_defs Let_def)

lemma two_key_before:
  "t \<le> 0 \<Longrightarrow>
   curve_value (list_parameter_curve EInterpolateType_Linear [(0, 1), (1, 5)]\<lparr>curKeyIdx := k\<rparr>) t
     = Inr (Some 1)"
  by (simp add: two_key_curve getValue_defs)

lemma two_key_after:
  "1 \<le> t \<Longrightarrow>
   curve_value (list_parameter_curve EInterpolateType_Linear [(0, 1), (1, 5)]\<lparr>curKeyIdx := k\<rparr>) t
     = Inr (Some 5)"
  by (cases "t = 1") (simp_all add: two_key_curve getValue_defs)

lemma two_key_between:
  "0 < t \<Longrightarrow> t < 1 \<Longrightarrow>
   curve_value (list_parameter_curve EInterpolateType_Linear [(0, 1), (1, 5)]\<lparr>curKeyIdx := k\<rparr>) t
     = Inr (Some (1 + 4 * t))"
  by (simp add: two_key_curve getValue_defs)

text \<open>
  Claim C6. For the curve with keys \<open>[(0,1),(1,5)]\<close> in Linear mode, whatever key
  index an earlier query left behind: \<open>getValue(-1)\<close> is 1, \<open>getValue(0.5)\<close> is 3 and
  \<open>getValue(2)\<close> is 5; every query time at or before the first key's time 0 returns the
  first key's value 1, and every query time at or after the last key's time 1 returns
  the last key's value 5.
\<close>

theorem list_parameter_boundary_values:
  "curve_value (list_parameter_curve EInterpolateType_Linear [(0, 1), (1, 5)]\<lparr>curKeyIdx := k\<rparr>)
      (- 1) = Inr (Some 1)
   \<and> curve_value (list_parameter_curve EInterpolateType_Linear [(0, 1), (1, 5)]\<lparr>curKeyIdx := k\<rparr>)
      (1 / 2) = Inr (Some 3)
   \<and> curve_value (list_parameter_curve EInterpolateType_Linear [(0, 1), (1, 5)]\<lparr>curKeyIdx := k\<rparr>)
      2 = Inr (Some 5)
   \<and> (\<forall>t \<le> 0. curve_value
          (list_parameter_curve EInterpolateType_Linear [(0, 1), (1, 5)]\<lparr>curKeyIdx := k\<rparr>) t
            = Inr (Some 1))
   \<and> (\<forall>t \<ge> 1. curve_value
          (list_parameter_curve EInterpolateType_Linear [(0, 1), (1, 5)]\<lparr>curKeyIdx := k\<rparr>) t
            = Inr (Some 5))"
  using two_key_before [of _ k] two_key_after [of _ k] two_key_between [of "1 / 2" k]
  by simp

theorem list_parameter_boundary_values_witness:
  "curve_value (list_parameter_curve EInterpolateType_Linear [(0, 1), (1, 5)]\<lparr>curKeyIdx := 1\<rparr>)
      (- 3) = Inr (Some 1)
   \<and> curve_value (list_parameter_curve EInterpolateType_Linear [(0, 1), (1, 5)]\<lparr>curKeyIdx := 1\<rparr>)
      7 = Inr (Some 5)"
  using list_parameter_boundary_values [of 1] by simp

lemma linear_mode_two_keys:
  assumes "t0 < t" and "t < t1"
  shows "curve_value (list_parameter_curve EInterpolateType_Linear [(t0, v0), (t1, v1)]) t
           = Inr (Some (v0 + (v1 - v0) * (t - t0) / (t1 - t0)))"
  using assms by (simp add: curve_defs getValue_defs)

lemma linear_mode_three_or_more_keys:
  assumes "length kvs \<ge> 3"
  shows "interpFunc (list_parameter_curve EInterpolateType_Linear kvs) = Some interpolateBSpline"
proof -
  have "length (flat_keys kvs) = 2 * length kvs"
    by (induction kvs rule: flat_keys.induct) simp_all
  with assms show ?thesis
    by (simp add: curve_defs Let_def)
qed

lemma three_key_curve:
  "list_parameter_curve EInterpolateType_Linear [(0, 0), (1, 1), (2, 0)] =
     \<lparr> interpolate_type = 1, keyCount = 3, keys = Some [0, 0, 1, 1, 2, 0], curKeyIdx = 0,
       interpFunc = Some interpolateBSpline \<rparr>"
  by (simp add: curve_defs Let_def)

text \<open>
  Claim C3. In Linear mode, evaluation strictly between two adjacent keys should return
  \<open>v0 + (v1 - v0) * (t - t0) / (t1 - t0)\<close> for every key count of at least 2. The
  \<open>switch\<close> of \<open>prepare\<close> has no \<open>break\<close> after its \<open>Linear\<close> case, so with three
  keys the B-spline is bound instead: for the keys \<open>[(0,0),(1,1),(2,0)]\<close> the value at
  \<open>t = 1/2\<close>, between the keys \<open>(0,0)\<close> and \<open>(1,1)\<close>, is \<open>11/24\<close> and not the linear
  value \<open>1/2\<close>.
\<close>

theorem linear_mode_three_keys_not_linear:
  "interpFunc (list_parameter_curve EInterpolateType_Linear [(0, 0), (1, 1), (2, 0)])
     = Some interpolateBSpline
   \<and> curve_value (list_parameter_curve EInterpolateType_Linear [(0, 0), (1, 1), (2, 0)]) (1 / 2)
     = Inr (Some (11 / 24))
   \<and> (0 + (1 - 0) * (1 / 2 - 0) / (1 - 0) :: real) \<noteq> 11 / 24"
  by (simp add: three_key_curve getValue_defs)

subsection \<open>Gain\<close>












































subsection \<open>The ground-check pass\<close>

lemma updateRoom_loop_length:
  "updateRoom_loop test service r i ds c = (ds', n, q) \<Longrightarrow> length ds' = length ds"
  by (induction ds arbitrary: i c ds' n q) (auto split: if_splits prod.splits)

lemma updateRoom_loop_count:
  "updateRoom_loop test service r i ds c = (ds', n, q) \<Longrightarrow> c \<le> kMaxGroundChecksPerFrame
     \<Longrightarrow> n = c + length q \<and> n \<le> kMaxGroundChecksPerFrame"
proof (induction ds arbitrary: i c ds' n q)
  case Nil
  then show ?case by simp
next
  case (Cons d ds)
  show ?case
  proof (cases "c \<ge> kMaxGroundChecksPerFrame")
    case True
    with Cons.prems show ?thesis by simp
  next
    case nb: False
    show ?thesis
    proof (cases "test d c")
      case True
      obtain rest' n' q' where r: "updateRoom_loop test service r (Suc i) ds (Suc c) = (rest', n', q')"
        by (cases "updateRoom_loop test service r (Suc i) ds (Suc c)") auto
      with Cons.prems nb True have q: "q = (r, i) # q'" and n: "n = n'" by simp_all
      from nb have "Suc c \<le> kMaxGroundChecksPerFrame" by simp
      from Cons.IH [OF r this] q n show ?thesis by simp
    next
      case False
      obtain rest' n' q' where r: "updateRoom_loop test service r (Suc i) ds c = (rest', n', q')"
        by (cases "updateRoom_loop test service r (Suc i) ds c") auto
      with Cons.prems nb False have q: "q = q'" and n: "n = n'" by simp_all
      from Cons.IH [OF r Cons.prems(2)] q n show ?thesis by simp
    qed
  qed
qed

lemma updateRoom_loop_log:
  "updateRoom_loop test service r i ds c = (ds', n, q) \<Longrightarrow> (a, j) \<in> set q
     \<Longrightarrow> a = r \<and> i \<le> j \<and> j < i + length ds
         \<and> (\<exists>k < kMaxGroundChecksPerFrame. test (ds ! (j - i)) k)"
proof (induction ds arbitrary: i c ds' n q)
  case Nil
  then show ?case by simp
next
  case (Cons d ds)
  show ?case
  proof (cases "c \<ge> kMaxGroundChecksPerFrame")
    case True
    with Cons.prems show ?thesis by simp
  next
    case False
    show ?thesis
    proof (cases "test d c")
      case True
      obtain rest' n' q' where r: "updateRoom_loop test service r (Suc i) ds (Suc c) = (rest', n', q')"
        by (cases "updateRoom_loop test service r (Suc i) ds (Suc c)") auto
      with Cons.prems False True have q: "q = (r, i) # q'" by simp
      show ?thesis
      proof (cases "(a, j) = (r, i)")
        case True
        with False \<open>test d c\<close> show ?thesis
          by (auto simp: not_le intro!: exI [of _ c])
      next
        case False
        with q Cons.prems(2) have "(a, j) \<in> set q'" by auto
        from Cons.IH [OF r this] show ?thesis
          by (auto simp: nth_Cons' Suc_diff_le)
      qed
    next
      case False
      obtain rest' n' q' where r: "updateRoom_loop test service r (Suc i) ds c = (rest', n', q')"
        by (cases "updateRoom_loop test service r (Suc i) ds c") auto
      with Cons.prems False \<open>\<not> c \<ge> kMaxGroundChecksPerFrame\<close> have q: "q = q'" by simp
      with Cons.prems(2) have "(a, j) \<in> set q'" by auto
      from Cons.IH [OF r this] show ?thesis
        by (auto simp: nth_Cons' Suc_diff_le)
    qed
  qed
qed

lemma updateRoom_loop_distinct:
  "updateRoom_loop test service r i ds c = (ds', n, q) \<Longrightarrow> distinct q"
proof (induction ds arbitrary: i c ds' n q)
  case Nil
  then show ?case by simp
next
  case (Cons d ds)
  show ?case
  proof (cases "c \<ge> kMaxGroundChecksPerFrame")
    case True
    with Cons.prems show ?thesis by simp
  next
    case nb: False
    show ?thesis
    proof (cases "test d c")
      case True
      obtain rest' n' q' where r: "updateRoom_loop test service r (Suc i) ds (Suc c) = (rest', n', q')"
        by (cases "updateRoom_loop test service r (Suc i) ds (Suc c)") auto
      with Cons.prems nb True have q: "q = (r, i) # q'" by simp
      from updateRoom_loop_log [OF r] have "(r, i) \<notin> set q'" by fastforce
      with Cons.IH [OF r] q show ?thesis by simp
    next
      case False
      obtain rest' n' q' where r: "updateRoom_loop test service r (Suc i) ds c = (rest', n', q')"
        by (cases "updateRoom_loop test service r (Suc i) ds c") auto
      with Cons.prems nb False have q: "q = q'" by simp
      with Cons.IH [OF r] show ?thesis by simp
    qed
  qed
qed

lemma updateRoom_loop_nth:
  "updateRoom_loop test service r i ds c = (ds', n, q) \<Longrightarrow> j < length ds
     \<Longrightarrow> ds' ! j = (if (r, i + j) \<in> set q then service r (ds ! j) else ds ! j)"
proof (induction ds arbitrary: i c ds' n q j)
  case Nil
  then show ?case by simp
next
  case (Cons d ds)
  show ?case
  proof (cases "c \<ge> kMaxGroundChecksPerFrame")
    case True
    with Cons.prems show ?thesis by simp
  next
    case nb: False
    show ?thesis
    proof (cases "test d c")
      case True
      obtain rest' n' q' where r: "updateRoom_loop test service r (Suc i) ds (Suc c) = (rest', n', q')"
        by (cases "updateRoom_loop test service r (Suc i) ds (Suc c)") auto
      with Cons.prems nb True have q: "q = (r, i) # q'" and d: "ds' = service r d # rest'" by simp_all
      show ?thesis
      proof (cases j)
        case 0
        with q d show ?thesis by simp
      next
        case (Suc j')
        with Cons.prems(2) have "j' < length ds" by simp
        from Cons.IH [OF r this] Suc q d show ?thesis by simp
      qed
    next
      case False
      obtain rest' n' q' where r: "updateRoom_loop test service r (Suc i) ds c = (rest', n', q')"
        by (cases "updateRoom_loop test service r (Suc i) ds c") auto
      with Cons.prems nb False have q: "q = q'" and d: "ds' = d # rest'" by simp_all
      show ?thesis
      proof (cases j)
        case 0
        from updateRoom_loop_log [OF r] have "(r, i) \<notin> set q'" by fastforce
        with 0 q d show ?thesis by simp
      next
        case (Suc j')
        with Cons.prems(2) have "j' < length ds" by simp
        from Cons.IH [OF r this] Suc q d show ?thesis by simp
      qed
    qed
  qed
qed

lemma updateRoom_loop_done:
  assumes A1: "\<And>d k. k < kMaxGroundChecksPerFrame \<Longrightarrow> test d k = flagged d"
    and A2: "\<And>d. \<not> flagged (service r d)"
  shows "updateRoom_loop test service r i ds c = (ds', n, q) \<Longrightarrow> n < kMaxGroundChecksPerFrame
     \<Longrightarrow> j < length ds \<Longrightarrow> \<not> flagged (ds' ! j)"
proof (induction ds arbitrary: i c ds' n q j)
  case Nil
  then show ?case by simp
next
  case (Cons d ds)
  show ?case
  proof (cases "c \<ge> kMaxGroundChecksPerFrame")
    case True
    with Cons.prems show ?thesis by simp
  next
    case nb: False
    show ?thesis
    proof (cases "test d c")
      case True
      obtain rest' n' q' where r: "updateRoom_loop test service r (Suc i) ds (Suc c) = (rest', n', q')"
        by (cases "updateRoom_loop test service r (Suc i) ds (Suc c)") auto
      with Cons.prems nb True have n: "n = n'" and d: "ds' = service r d # rest'" by simp_all
      show ?thesis
      proof (cases j)
        case 0
        with d A2 show ?thesis by simp
      next
        case (Suc j')
        with Cons.prems(3) have "j' < length ds" by simp
        from Cons.IH [OF r _ this] Cons.prems(2) n Suc d show ?thesis by simp
      qed
    next
      case False
      obtain rest' n' q' where r: "updateRoom_loop test service r (Suc i) ds c = (rest', n', q')"
        by (cases "updateRoom_loop test service r (Suc i) ds c") auto
      with Cons.prems nb False have n: "n = n'" and d: "ds' = d # rest'" by simp_all
      show ?thesis
      proof (cases j)
        case 0
        with d False nb A1 [of c d] show ?thesis by simp
      next
        case (Suc j')
        with Cons.prems(3) have "j' < length ds" by simp
        from Cons.IH [OF r _ this] Cons.prems(2) n Suc d show ?thesis by simp
      qed
    qed
  qed
qed

lemma pass_inv_init: "pass_inv flagged service rs0 (rs0, 0, [])"
  by (simp add: pass_inv_def)

lemma updateRoom_inv:
  assumes A1: "\<And>d k. k < kMaxGroundChecksPerFrame \<Longrightarrow> test d k = flagged d"
    and A2: "\<And>a d. \<not> flagged (service a d)"
    and inv: "pass_inv flagged service rs0 st"
    and r: "r < length rs0"
  shows "pass_inv flagged service rs0 (updateRoom test service r st)"
proof -
  obtain rs n q where st: "st = (rs, n, q)" by (cases st) auto
  obtain room' n' q1 where loop: "updateRoom_loop test service r 0 (rs ! r) n = (room', n', q1)"
    by (cases "updateRoom_loop test service r 0 (rs ! r) n") auto
  have res: "updateRoom test service r st = (rs[r := room'], n', q @ q1)"
    by (simp add: updateRoom_def st loop)
  from inv st have len: "length rs = length rs0" and nq: "n = length q"
    and nK: "n \<le> kMaxGroundChecksPerFrame" and dq: "distinct q"
    and qin: "\<And>a j. (a, j) \<in> set q \<Longrightarrow> a < length rs0 \<and> j < length (rs0 ! a) \<and> flagged (rs0 ! a ! j)"
    and lens: "\<And>a. a < length rs0 \<Longrightarrow> length (rs ! a) = length (rs0 ! a)"
    and nth: "\<And>a j. a < length rs0 \<Longrightarrow> j < length (rs0 ! a) \<Longrightarrow>
                rs ! a ! j = (if (a, j) \<in> set q then service a (rs0 ! a ! j) else rs0 ! a ! j)"
    by (auto simp: pass_inv_def)
  have rlen: "length room' = length (rs0 ! r)"
    using updateRoom_loop_length [OF loop] lens [OF r] by simp
  have cnt: "n' = n + length q1" "n' \<le> kMaxGroundChecksPerFrame"
    using updateRoom_loop_count [OF loop nK] by simp_all
  have q1in: "a = r \<and> j < length (rs0 ! r) \<and> flagged (rs ! r ! j)" if "(a, j) \<in> set q1" for a j
  proof -
    from updateRoom_loop_log [OF loop that] obtain k where
      "a = r" "j < length (rs ! r)" "k < kMaxGroundChecksPerFrame" "test (rs ! r ! j) k"
      by auto
    with A1 [of k "rs ! r ! j"] lens [OF r] show ?thesis by simp
  qed
  have fresh: "(a, j) \<notin> set q" if "(a, j) \<in> set q1" for a j
  proof
    assume "(a, j) \<in> set q"
    with q1in [OF that] nth [OF r, of j] A2 [of r "rs0 ! r ! j"] show False by simp
  qed
  have d1: "distinct (q @ q1)"
    using dq updateRoom_loop_distinct [OF loop] fresh by auto
  have qin': "a < length rs0 \<and> j < length (rs0 ! a) \<and> flagged (rs0 ! a ! j)"
    if "(a, j) \<in> set (q @ q1)" for a j
  proof (cases "(a, j) \<in> set q")
    case True
    then show ?thesis by (rule qin)
  next
    case False
    with that have m: "(a, j) \<in> set q1" by simp
    from q1in [OF m] fresh [OF m] nth [OF r, of j] r show ?thesis by simp
  qed
  have nth': "(rs[r := room']) ! a ! j =
                (if (a, j) \<in> set (q @ q1) then service a (rs0 ! a ! j) else rs0 ! a ! j)"
    if a: "a < length rs0" and j: "j < length (rs0 ! a)" for a j
  proof (cases "a = r")
    case False
    then have "(a, j) \<notin> set q1" using q1in by blast
    with False nth [OF a j] show ?thesis by simp
  next
    case True
    from j True lens [OF r] have jl: "j < length (rs ! r)" by simp
    from updateRoom_loop_nth [OF loop jl]
    have e: "room' ! j = (if (r, j) \<in> set q1 then service r (rs ! r ! j) else rs ! r ! j)"
      by simp
    show ?thesis
    proof (cases "(r, j) \<in> set q1")
      case in1: True
      from fresh [OF in1] nth [OF r, of j] j True have "rs ! r ! j = rs0 ! r ! j" by simp
      with e in1 True r len show ?thesis by simp
    next
      case False
      with e True r len nth [OF r, of j] j show ?thesis by simp
    qed
  qed
  have lens': "length ((rs[r := room']) ! a) = length (rs0 ! a)" if "a < length rs0" for a
    using that lens [OF that] rlen len by (cases "a = r") simp_all
  show ?thesis
    unfolding res pass_inv_def
    using len nq cnt d1 qin' lens' nth' by auto
qed

lemma updateRoom_log_prefix:
  "\<exists>rs' n' q1. updateRoom test service r (rs, n, q) = (rs', n', q @ q1)
      \<and> (\<forall>(a, j) \<in> set q1. a = r)"
proof -
  obtain room' n' q1 where loop: "updateRoom_loop test service r 0 (rs ! r) n = (room', n', q1)"
    by (cases "updateRoom_loop test service r 0 (rs ! r) n") auto
  have "\<forall>(a, j) \<in> set q1. a = r"
    using updateRoom_loop_log [OF loop] by blast
  then show ?thesis by (simp add: updateRoom_def loop)
qed

lemma updateRoom_done:
  assumes A1: "\<And>d k. k < kMaxGroundChecksPerFrame \<Longrightarrow> test d k = flagged d"
    and A2: "\<And>a d. \<not> flagged (service a d)"
    and inv: "pass_inv flagged service rs0 st"
    and r: "r < length rs0" and a: "a < length rs0"
    and d: "a = r \<or> room_done flagged st a"
  shows "room_done flagged (updateRoom test service r st) a"
proof -
  obtain rs n q where st: "st = (rs, n, q)" by (cases st) auto
  obtain room' n' q1 where loop: "updateRoom_loop test service r 0 (rs ! r) n = (room', n', q1)"
    by (cases "updateRoom_loop test service r 0 (rs ! r) n") auto
  have res: "updateRoom test service r st = (rs[r := room'], n', q @ q1)"
    by (simp add: updateRoom_def st loop)
  from inv st have len: "length rs = length rs0" and nK: "n \<le> kMaxGroundChecksPerFrame"
    by (auto simp: pass_inv_def)
  have cnt: "n' = n + length q1"
    using updateRoom_loop_count [OF loop nK] by simp
  show ?thesis
  proof (cases "a = r")
    case True
    have "\<not> flagged (room' ! j)" if "n' < kMaxGroundChecksPerFrame" "j < length room'" for j
      using updateRoom_loop_done [of test flagged service r, OF A1 A2 loop that(1)] that(2)
        updateRoom_loop_length [OF loop] by simp
    with True r len show ?thesis unfolding res by (simp add: room_done_def)
  next
    case False
    with d have "room_done flagged st a" by simp
    with False cnt show ?thesis unfolding res by (simp add: room_done_def st)
  qed
qed

lemma fold_updateRoom:
  assumes A1: "\<And>d k. k < kMaxGroundChecksPerFrame \<Longrightarrow> test d k = flagged d"
    and A2: "\<And>a d. \<not> flagged (service a d)"
  shows "pass_inv flagged service rs0 st \<Longrightarrow> \<forall>r \<in> set ord. r < length rs0
     \<Longrightarrow> \<forall>a \<in> V. a < length rs0 \<and> room_done flagged st a
     \<Longrightarrow> pass_inv flagged service rs0 (fold (updateRoom test service) ord st)
         \<and> (\<forall>a \<in> V \<union> set ord. room_done flagged (fold (updateRoom test service) ord st) a)"
proof (induction ord arbitrary: st V)
  case Nil
  then show ?case by simp
next
  case (Cons r ord)
  have r: "r < length rs0" using Cons.prems(2) by simp
  have i1: "pass_inv flagged service rs0 (updateRoom test service r st)"
    by (rule updateRoom_inv [OF A1 A2 Cons.prems(1) r])
  have d1: "\<forall>a \<in> insert r V. a < length rs0
              \<and> room_done flagged (updateRoom test service r st) a"
  proof
    fix a assume "a \<in> insert r V"
    then have "a < length rs0" and "a = r \<or> room_done flagged st a"
      using r Cons.prems(3) by auto
    with updateRoom_done [of test flagged service rs0 st r a, OF A1 A2 Cons.prems(1) r]
    show "a < length rs0 \<and> room_done flagged (updateRoom test service r st) a" by simp
  qed
  from Cons.IH [OF i1 _ d1] Cons.prems(2) show ?case by simp
qed

lemma fold_updateRoom_prefix:
  "\<exists>rs' n' q1. fold (updateRoom test service) ord (rs, n, q) = (rs', n', q @ q1)
      \<and> (\<forall>(a, j) \<in> set q1. a \<in> set ord)"
proof (induction ord arbitrary: rs n q)
  case Nil
  then show ?case by simp
next
  case (Cons r ord)
  from updateRoom_log_prefix [of test service r rs n q] obtain rs1 n1 q1 where
    u: "updateRoom test service r (rs, n, q) = (rs1, n1, q @ q1)" and a: "\<forall>(a, j) \<in> set q1. a = r"
    by blast
  from Cons.IH [of rs1 n1 "q @ q1"] obtain rs2 n2 q2 where
    f: "fold (updateRoom test service) ord (rs1, n1, q @ q1) = (rs2, n2, (q @ q1) @ q2)"
    and b: "\<forall>(a, j) \<in> set q2. a \<in> set ord"
    by blast
  from u f a b show ?case by auto
qed

lemma update_other_rooms_fold:
  assumes A1: "\<And>d k. k < kMaxGroundChecksPerFrame \<Longrightarrow> test d k = flagged d"
    and A2: "\<And>a d. \<not> flagged (service a d)"
  shows "pass_inv flagged service rs0 st \<Longrightarrow> \<forall>r \<in> set ord. r < length rs0
     \<Longrightarrow> update_other_rooms test service m ord st
           = fold (updateRoom test service) (filter (\<lambda>r. r \<noteq> m) ord) st"
proof (induction ord arbitrary: st)
  case Nil
  then show ?case by simp
next
  case (Cons r ord)
  from Cons.prems(1) have nK: "\<not> fst (snd st) > kMaxGroundChecksPerFrame"
    by (cases st) (auto simp: pass_inv_def)
  show ?case
  proof (cases "r = m")
    case True
    with nK Cons show ?thesis by simp
  next
    case False
    have r: "r < length rs0" using Cons.prems(2) by simp
    have i1: "pass_inv flagged service rs0 (updateRoom test service r st)"
      by (rule updateRoom_inv [OF A1 A2 Cons.prems(1) r])
    from Cons.IH [OF i1] Cons.prems(2) False nK show ?thesis by simp
  qed
qed

lemma update_impl_result:
  assumes A1: "\<And>d k. k < kMaxGroundChecksPerFrame \<Longrightarrow> test d k = flagged d"
    and A2: "\<And>a d. \<not> flagged (service a d)"
    and m: "m < length (rooms pkt)"
  shows "\<exists>rs q. update_impl test service m pkt = Inr (pkt\<lparr>rooms := rs\<rparr>, q)
           \<and> pass_inv flagged service (rooms pkt) (rs, length q, q)
           \<and> (\<forall>a < length (rooms pkt). room_done flagged (rs, length q, q) a)
           \<and> ((\<exists>j < length (rs ! m). flagged (rs ! m ! j)) \<longrightarrow> (\<forall>(a, j) \<in> set q. a = m))"
proof -
  let ?rs0 = "rooms pkt"
  let ?N = "length ?rs0"
  let ?ord = "filter (\<lambda>r. r \<noteq> m) [0..<?N]"
  let ?st0 = "(?rs0, 0::nat, [] :: (nat \<times> nat) list)"
  let ?st1 = "updateRoom test service m ?st0"
  let ?st2 = "fold (updateRoom test service) ?ord ?st1"
  have i0: "pass_inv flagged service ?rs0 ?st0" by (rule pass_inv_init)
  have i1: "pass_inv flagged service ?rs0 ?st1"
    by (rule updateRoom_inv [OF A1 A2 i0 m])
  have d1: "room_done flagged ?st1 m"
    using updateRoom_done [of test flagged service ?rs0 ?st0 m m, OF A1 A2 i0 m m] by simp
  have oth: "update_other_rooms test service m [0..<?N] ?st1 = ?st2"
  proof -
    have "\<forall>r \<in> set [0..<?N]. r < ?N" by simp
    from update_other_rooms_fold [of test flagged service ?rs0 ?st1 "[0..<?N]" m, OF A1 A2 i1 this]
    show ?thesis .
  qed
  have f: "pass_inv flagged service ?rs0 ?st2
           \<and> (\<forall>a \<in> {m} \<union> set ?ord. room_done flagged ?st2 a)"
  proof -
    have o: "\<forall>r \<in> set ?ord. r < ?N" by simp
    have v: "\<forall>a \<in> {m}. a < ?N \<and> room_done flagged ?st1 a" using m d1 by simp
    from fold_updateRoom [of test flagged service ?rs0 ?st1 ?ord "{m}", OF A1 A2 i1 o v]
    show ?thesis .
  qed
  obtain rs1 n1 q1 where st1: "?st1 = (rs1, n1, q1)" by (cases ?st1) auto
  from updateRoom_log_prefix [of test service m ?rs0 0 "[]"] st1
  have q1m: "\<forall>(a, j) \<in> set q1. a = m" by auto
  from fold_updateRoom_prefix [of test service ?ord rs1 n1 q1] obtain rs2 n2 q2 where
    st2': "fold (updateRoom test service) ?ord (rs1, n1, q1) = (rs2, n2, q1 @ q2)"
    and q2o: "\<forall>(a, j) \<in> set q2. a \<in> set ?ord"
    by blast
  from st2' st1 have st2: "?st2 = (rs2, n2, q1 @ q2)" by simp
  from f st2 have inv2: "pass_inv flagged service ?rs0 (rs2, n2, q1 @ q2)" by simp
  then have n2: "n2 = length (q1 @ q2)" and n2K: "n2 \<le> kMaxGroundChecksPerFrame"
    by (auto simp: pass_inv_def)
  from i1 st1 have n1: "n1 = length q1" by (auto simp: pass_inv_def)
  have res: "update_impl test service m pkt = Inr (pkt\<lparr>rooms := rs2\<rparr>, q1 @ q2)"
    using m oth st2 by (simp add: update_impl_def Let_def)
  have alldone: "\<forall>a < ?N. room_done flagged (rs2, length (q1 @ q2), q1 @ q2) a"
  proof (intro allI impI)
    fix a assume "a < ?N"
    then have "a \<in> {m} \<union> set ?ord" by auto
    with f st2 n2 show "room_done flagged (rs2, length (q1 @ q2), q1 @ q2) a" by auto
  qed
  have prio: "\<forall>(a, j) \<in> set (q1 @ q2). a = m" if "\<exists>j < length (rs2 ! m). flagged (rs2 ! m ! j)"
  proof -
    from that obtain j where j: "j < length (rs2 ! m)" and fl: "flagged (rs2 ! m ! j)" by blast
    from inv2 m have l2: "length (rs2 ! m) = length (?rs0 ! m)"
      and e2: "rs2 ! m ! j = (if (m, j) \<in> set (q1 @ q2) then service m (?rs0 ! m ! j)
                              else ?rs0 ! m ! j)"
      using j by (auto simp: pass_inv_def)
    from e2 fl A2 have notin: "(m, j) \<notin> set (q1 @ q2)" and fl0: "flagged (?rs0 ! m ! j)"
      by (auto split: if_splits)
    from i1 st1 m j l2 have "rs1 ! m ! j = (if (m, j) \<in> set q1 then service m (?rs0 ! m ! j)
                              else ?rs0 ! m ! j)" and "length (rs1 ! m) = length (?rs0 ! m)"
      by (auto simp: pass_inv_def)
    with notin fl0 j l2 have "flagged (rs1 ! m ! j)" "j < length (rs1 ! m)" by auto
    with d1 st1 have "\<not> n1 < kMaxGroundChecksPerFrame"
      by (auto simp: room_done_def)
    with n1 n2 n2K have "length q2 \<le> 0" by (simp only: length_append)
    then have "q2 = []" by simp
    with q1m show ?thesis by simp
  qed
  from res inv2 n2 alldone prio show ?thesis by blast
qed

lemma single_room_count:
  assumes A2: "\<And>a d. \<not> flagged (service a d)"
    and inv: "pass_inv flagged service rs0 (rs, length q, q)"
    and dn: "\<forall>a < length rs0. room_done flagged (rs, length q, q) a"
    and r0: "r0 < length rs0"
    and allf: "\<forall>d \<in> set (rs0 ! r0). flagged d"
    and empty: "\<forall>a < length rs0. a \<noteq> r0 \<longrightarrow> rs0 ! a = []"
  shows "length q = min (length (rs0 ! r0)) kMaxGroundChecksPerFrame
         \<and> length (filter flagged (rs ! r0)) = length (rs0 ! r0) - length q
         \<and> length (filter (\<lambda>d. \<not> flagged d) (rs ! r0)) = length q"
proof -
  let ?n = "length (rs0 ! r0)"
  let ?J = "{j. (r0, j) \<in> set q}"
  from inv have qK: "length q \<le> kMaxGroundChecksPerFrame" and dq: "distinct q"
    and qall: "\<forall>(a, j) \<in> set q. a < length rs0 \<and> j < length (rs0 ! a) \<and> flagged (rs0 ! a ! j)"
    and rall: "\<forall>a < length rs0. length (rs ! a) = length (rs0 ! a)
              \<and> (\<forall>j < length (rs0 ! a).
                    rs ! a ! j = (if (a, j) \<in> set q then service a (rs0 ! a ! j)
                                  else rs0 ! a ! j))"
    by (simp_all add: pass_inv_def)
  from qall have qin: "a < length rs0 \<and> j < length (rs0 ! a)" if "(a, j) \<in> set q" for a j
    using that by blast
  from rall r0 have len: "length (rs ! r0) = ?n"
    and nth: "\<And>j. j < ?n \<Longrightarrow>
                rs ! r0 ! j = (if (r0, j) \<in> set q then service r0 (rs0 ! r0 ! j) else rs0 ! r0 ! j)"
    by blast+
  have room: "a = r0 \<and> j < ?n" if "(a, j) \<in> set q" for a j
  proof -
    from qin [OF that] have a: "a < length rs0" and j: "j < length (rs0 ! a)" by simp_all
    with empty have "a = r0" by (cases "a = r0") auto
    with j show ?thesis by simp
  qed
  have setq: "set q = Pair r0 ` ?J"
  proof (rule equalityI; rule subsetI)
    fix x assume x: "x \<in> set q"
    obtain a j where aj: "x = (a, j)" by (cases x) auto
    with x room [of a j] have "a = r0" by simp
    with aj x have "j \<in> ?J" by simp
    with aj \<open>a = r0\<close> show "x \<in> Pair r0 ` ?J" by (simp add: image_iff)
  next
    fix x assume "x \<in> Pair r0 ` ?J"
    then obtain j where "j \<in> ?J" "x = (r0, j)" by (auto simp: image_iff)
    then show "x \<in> set q" by simp
  qed
  have Jsub: "?J \<subseteq> {..<?n}" using room by auto
  then have finJ: "finite ?J" by (rule finite_subset) simp
  have cimg: "card (Pair r0 ` ?J) = card ?J"
    by (rule card_image) (simp add: inj_on_def)
  have "card (set q) = card (Pair r0 ` ?J)"
    using setq by (rule arg_cong)
  with cimg have "card (set q) = card ?J" by (rule trans [rotated])
  with dq have cJ: "card ?J = length q" by (simp add: distinct_card)
  have fl: "flagged (rs ! r0 ! j) \<longleftrightarrow> j \<notin> ?J" if "j < ?n" for j
  proof (cases "(r0, j) \<in> set q")
    case True
    with nth [OF that] have "rs ! r0 ! j = service r0 (rs0 ! r0 ! j)" by simp
    with A2 [of r0 "rs0 ! r0 ! j"] True show ?thesis by simp
  next
    case False
    with nth [OF that] have "rs ! r0 ! j = rs0 ! r0 ! j" by simp
    moreover from that allf have "flagged (rs0 ! r0 ! j)" by (simp add: nth_mem)
    ultimately show ?thesis using False by simp
  qed
  have "{i. i < length (rs ! r0) \<and> flagged (rs ! r0 ! i)} = {..<?n} - ?J"
    using fl len by auto
  then have "length (filter flagged (rs ! r0)) = card ({..<?n} - ?J)"
    by (simp add: length_filter_conv_card)
  also have "\<dots> = ?n - card ?J"
    using Jsub finJ by (simp add: card_Diff_subset)
  finally have nf: "length (filter flagged (rs ! r0)) = ?n - length q" using cJ by simp
  have cle: "length q \<le> ?n"
    using card_mono [OF _ Jsub] cJ by simp
  have "length (filter flagged (rs ! r0)) + length (filter (\<lambda>d. \<not> flagged d) (rs ! r0)) = ?n"
    using sum_length_filter_compl [of flagged "rs ! r0"] len by simp
  with nf cle have nn: "length (filter (\<lambda>d. \<not> flagged d) (rs ! r0)) = length q" by simp
  have "length q = min ?n kMaxGroundChecksPerFrame"
  proof (cases "length q < kMaxGroundChecksPerFrame")
    case True
    with dn r0 have "\<forall>j < length (rs ! r0). \<not> flagged (rs ! r0 ! j)"
      by (simp add: room_done_def)
    then have "filter flagged (rs ! r0) = []"
      by (auto simp: filter_empty_conv in_set_conv_nth)
    with nf cle have "length q = ?n" by simp
    with True show ?thesis by simp
  next
    case False
    with qK cle show ?thesis by simp
  qed
  with nf nn show ?thesis by simp
qed

lemma FlowerPacket_update_room_full:
  "c \<ge> kMaxGroundChecksPerFrame \<Longrightarrow> FlowerPacket_update_room bg r i ds c = (ds, c, [])"
  by (induction ds arbitrary: i) simp_all

lemma FlowerPacket_update_room_eq:
  "FlowerPacket_update_room bg r i ds c
     = updateRoom_loop Flower_test (FlowerPacket_service bg) r i ds c"
proof (induction ds arbitrary: i c)
  case Nil
  then show ?case by simp
next
  case (Cons d ds)
  show ?case
  proof (cases "c \<ge> kMaxGroundChecksPerFrame")
    case True
    then show ?thesis by (simp add: FlowerPacket_update_room_full)
  next
    case False
    with Cons.IH show ?thesis by (simp add: Flower_test_def)
  qed
qed

lemma FlowerPacket_update_rooms_fold:
  "FlowerPacket_update_rooms bg (length pre) suf c = (suf', n, q1) \<Longrightarrow>
   fold (updateRoom Flower_test (FlowerPacket_service bg))
        [length pre..<length pre + length suf] (pre @ suf, c, q)
     = (pre @ suf', n, q @ q1)"
proof (induction suf arbitrary: pre c q suf' n q1)
  case Nil
  then show ?case by simp
next
  case (Cons room others)
  obtain room' n1 qa where loop:
    "FlowerPacket_update_room bg (length pre) 0 room c = (room', n1, qa)"
    by (cases "FlowerPacket_update_room bg (length pre) 0 room c") auto
  obtain others' n2 qb where rest:
    "FlowerPacket_update_rooms bg (Suc (length pre)) others n1 = (others', n2, qb)"
    by (cases "FlowerPacket_update_rooms bg (Suc (length pre)) others n1") auto
  from Cons.prems loop rest have r: "suf' = room' # others'" "n = n2" "q1 = qa @ qb"
    by simp_all
  have u: "updateRoom Flower_test (FlowerPacket_service bg) (length pre)
             (pre @ room # others, c, q) = ((pre @ [room']) @ others, n1, q @ qa)"
    using loop by (simp add: updateRoom_def FlowerPacket_update_room_eq [symmetric])
  have rest': "FlowerPacket_update_rooms bg (length (pre @ [room'])) others n1 = (others', n2, qb)"
    using rest by simp
  have up: "[length pre..<length pre + length (room # others)]
              = length pre # [length (pre @ [room'])..<length (pre @ [room']) + length others]"
  proof -
    have "length pre < length pre + length (room # others)" by simp
    from upt_conv_Cons [OF this] show ?thesis by simp
  qed
  show ?case
    unfolding up fold_Cons comp_apply u
    using Cons.IH [OF rest', of "q @ qa"] r by simp
qed

lemma FlowerPacket_update_fold:
  "FlowerPacket_update bg pkt =
     (case fold (updateRoom Flower_test (FlowerPacket_service bg)) [0..<length (rooms pkt)]
             (rooms pkt, 0, []) of (rs, n, q) \<Rightarrow> (pkt\<lparr>rooms := rs\<rparr>, q))"
proof -
  obtain rs n q where r: "FlowerPacket_update_rooms bg 0 (rooms pkt) 0 = (rs, n, q)"
    by (cases "FlowerPacket_update_rooms bg 0 (rooms pkt) 0") auto
  from FlowerPacket_update_rooms_fold [of bg "[]" "rooms pkt" 0 rs n q "[]"] r
  show ?thesis by (simp add: FlowerPacket_update_def)
qed

lemma FlowerPacket_update_result:
  fixes flagged :: "FlowerData \<Rightarrow> bool"
  assumes fl: "flagged = (\<lambda>d. flags d AND FlowerFlags_needsGroundCheck \<noteq> 0)"
  shows "\<exists>rs q. FlowerPacket_update bg pkt = (pkt\<lparr>rooms := rs\<rparr>, q)
           \<and> pass_inv flagged (FlowerPacket_service bg) (rooms pkt) (rs, length q, q)
           \<and> (\<forall>a < length (rooms pkt). room_done flagged (rs, length q, q) a)"
proof -
  let ?rs0 = "rooms pkt"
  let ?st = "fold (updateRoom Flower_test (FlowerPacket_service bg)) [0..<length ?rs0]
               (?rs0, 0, [])"
  have A1: "\<And>d k. k < kMaxGroundChecksPerFrame \<Longrightarrow> Flower_test d k = flagged d"
    by (simp add: Flower_test_def fl)
  have A2: "\<And>a d. \<not> flagged (FlowerPacket_service bg a d)"
    by (simp add: fl FlowerPacket_service_def Let_def FlowerFlags_needsGroundCheck_def
        and.assoc)
  have o: "\<forall>r \<in> set [0..<length ?rs0]. r < length ?rs0" by simp
  have v: "\<forall>a \<in> {}. a < length ?rs0 \<and> room_done flagged (?rs0, 0, []) a" by simp
  from fold_updateRoom [of Flower_test flagged "FlowerPacket_service bg" ?rs0 "(?rs0, 0, [])"
      "[0..<length ?rs0]" "{}", OF A1 A2 pass_inv_init o v]
  have f: "pass_inv flagged (FlowerPacket_service bg) ?rs0 ?st"
    and d: "\<forall>a < length ?rs0. room_done flagged ?st a" by auto
  obtain rs n q where st: "?st = (rs, n, q)" by (cases ?st) auto
  with f have "n = length q" by (simp add: pass_inv_def)
  with f d st show ?thesis
    by (intro exI [of _ rs] exI [of _ q]) (simp add: FlowerPacket_update_fold)
qed

subsection \<open>The four packets\<close>

lemma clear_flag: "((w :: 32 word) AND - 3) AND 2 = 0"
  by (simp add: and.assoc)

lemma FlowerPacket_service_clears: "\<not> needsGroundCheck (FlowerPacket_service bg a d)"
  by (simp add: needsGroundCheck_def FlowerPacket_service_def Let_def
      FlowerFlags_needsGroundCheck_def clear_flag)

lemma GrassPacket_service_clears: "\<not> needsGroundCheck (GrassPacket_service bg a d)"
  by (simp add: needsGroundCheck_def GrassPacket_service_def Let_def
      GrassFlags_needsGroundCheck_def clear_flag)

lemma TreePacket_service_clears: "\<not> needsGroundCheck (TreePacket_service bg a d)"
  by (simp add: needsGroundCheck_def TreePacket_service_def TreePacket_checkGroundY_def Let_def
      TreeFlags_needsGroundCheck_def clear_flag split: prod.splits)

lemma BushPacket_service_clears: "\<not> needsGroundCheck (BushPacket_service bg a d)"
  by (simp add: needsGroundCheck_def BushPacket_service_def BushPacket_checkGroundY_def Let_def
      TreeFlags_needsGroundCheck_def clear_flag split: prod.splits)

lemma pass_inv_ok:
  assumes A2: "\<And>a d. \<not> needsGroundCheck (service a d)"
    and inv: "pass_inv needsGroundCheck service rs0 (rs, length q, q)"
  shows "ground_pass_ok rs0 rs q"
proof -
  from inv have 1: "length q \<le> kMaxGroundChecksPerFrame" "distinct q" "length rs = length rs0"
    and qall: "\<forall>(a, j) \<in> set q. a < length rs0 \<and> j < length (rs0 ! a)
                 \<and> needsGroundCheck (rs0 ! a ! j)"
    and rall: "\<forall>a < length rs0. length (rs ! a) = length (rs0 ! a)
              \<and> (\<forall>j < length (rs0 ! a).
                    rs ! a ! j = (if (a, j) \<in> set q then service a (rs0 ! a ! j)
                                  else rs0 ! a ! j))"
    by (simp_all add: pass_inv_def)
  have 2: "\<forall>(a, j) \<in> set q. a < length rs0 \<and> j < length (rs0 ! a)"
    using qall by blast
  have 3: "length (rs ! a) = length (rs0 ! a)
            \<and> (\<forall>j < length (rs0 ! a).
                  if (a, j) \<in> set q
                  then needsGroundCheck (rs0 ! a ! j) \<and> \<not> needsGroundCheck (rs ! a ! j)
                  else rs ! a ! j = rs0 ! a ! j)" if a: "a < length rs0" for a
  proof (intro conjI allI impI)
    from rall a show "length (rs ! a) = length (rs0 ! a)" by blast
  next
    fix j assume j: "j < length (rs0 ! a)"
    from rall a j have e: "rs ! a ! j = (if (a, j) \<in> set q then service a (rs0 ! a ! j)
                                  else rs0 ! a ! j)" by blast
    show "if (a, j) \<in> set q
          then needsGroundCheck (rs0 ! a ! j) \<and> \<not> needsGroundCheck (rs ! a ! j)
          else rs ! a ! j = rs0 ! a ! j"
    proof (cases "(a, j) \<in> set q")
      case True
      with qall have "needsGroundCheck (rs0 ! a ! j)" by blast
      with True e A2 [of a "rs0 ! a ! j"] show ?thesis by simp
    next
      case False
      with e show ?thesis by simp
    qed
  qed
  from 1 2 3 show ?thesis unfolding ground_pass_ok_def by blast
qed

lemma pass_eight_of_twenty:
  assumes A2: "\<And>a d. \<not> needsGroundCheck (service a d)"
    and inv: "pass_inv needsGroundCheck service rs0 (rs, length q, q)"
    and dn: "\<forall>a < length rs0. room_done needsGroundCheck (rs, length q, q) a"
    and tw: "twenty_flagged_in_room rs0 r0"
  shows "eight_of_twenty rs r0 q"
proof -
  from tw have r0: "r0 < length rs0" and l: "length (rs0 ! r0) = 20"
    and allf: "\<forall>d \<in> set (rs0 ! r0). needsGroundCheck d"
    and empty: "\<forall>a < length rs0. a \<noteq> r0 \<longrightarrow> rs0 ! a = []"
    by (simp_all add: twenty_flagged_in_room_def)
  from single_room_count [of needsGroundCheck service rs0 rs q r0, OF A2 inv dn r0 allf empty] l
  show ?thesis by (simp add: eight_of_twenty_def kMaxGroundChecksPerFrame_def)
qed

lemma update_impl_summary:
  fixes service :: "nat \<Rightarrow> 'a FoliageData_scheme \<Rightarrow> 'a FoliageData_scheme"
  assumes A1: "\<And>d k. k < kMaxGroundChecksPerFrame \<Longrightarrow> test d k = needsGroundCheck d"
    and A2: "\<And>a d. \<not> needsGroundCheck (service a d)"
    and m: "m < length (rooms pkt)"
  shows "\<exists>rs q. update_impl test service m pkt = Inr (pkt\<lparr>rooms := rs\<rparr>, q)
           \<and> ground_pass_ok (rooms pkt) rs q
           \<and> (\<forall>r0. twenty_flagged_in_room (rooms pkt) r0 \<longrightarrow> eight_of_twenty rs r0 q)
           \<and> ((\<exists>j < length (rs ! m). needsGroundCheck (rs ! m ! j)) \<longrightarrow> (\<forall>(a, j) \<in> set q. a = m))
           \<and> (\<forall>(a, j) \<in> set q. rs ! a ! j = service a (rooms pkt ! a ! j))"
proof -
  from update_impl_result [of test needsGroundCheck service m pkt, OF A1 A2 m]
  obtain rs q where res: "update_impl test service m pkt = Inr (pkt\<lparr>rooms := rs\<rparr>, q)"
    and inv: "pass_inv needsGroundCheck service (rooms pkt) (rs, length q, q)"
    and dn: "\<forall>a < length (rooms pkt). room_done needsGroundCheck (rs, length q, q) a"
    and prio: "(\<exists>j < length (rs ! m). needsGroundCheck (rs ! m ! j)) \<longrightarrow> (\<forall>(a, j) \<in> set q. a = m)"
    by blast
  have ok: "ground_pass_ok (rooms pkt) rs q"
    by (rule pass_inv_ok [OF A2 inv])
  have tw: "\<forall>r0. twenty_flagged_in_room (rooms pkt) r0 \<longrightarrow> eight_of_twenty rs r0 q"
    using pass_eight_of_twenty [of service "rooms pkt" rs q, OF A2 inv dn] by blast
  have sv: "\<forall>(a, j) \<in> set q. rs ! a ! j = service a (rooms pkt ! a ! j)"
    using inv unfolding pass_inv_def by fastforce
  from res ok tw prio sv show ?thesis by blast
qed

lemma FlowerPacket_update_summary:
  "\<exists>rs q. FlowerPacket_update bg pkt = (pkt\<lparr>rooms := rs\<rparr>, q)
           \<and> ground_pass_ok (rooms pkt) rs q
           \<and> (\<forall>r0. twenty_flagged_in_room (rooms pkt) r0 \<longrightarrow> eight_of_twenty rs r0 q)
           \<and> (\<forall>(a, j) \<in> set q. rs ! a ! j = FlowerPacket_service bg a (rooms pkt ! a ! j))"
proof -
  have fl: "(needsGroundCheck :: FlowerData \<Rightarrow> bool)
              = (\<lambda>d. flags d AND FlowerFlags_needsGroundCheck \<noteq> 0)"
    by (rule ext) (simp add: needsGroundCheck_def FlowerFlags_needsGroundCheck_def)
  from FlowerPacket_update_result [of needsGroundCheck bg pkt, OF fl]
  obtain rs q where res: "FlowerPacket_update bg pkt = (pkt\<lparr>rooms := rs\<rparr>, q)"
    and inv: "pass_inv needsGroundCheck (FlowerPacket_service bg) (rooms pkt) (rs, length q, q)"
    and dn: "\<forall>a < length (rooms pkt). room_done needsGroundCheck (rs, length q, q) a"
    by blast
  have ok: "ground_pass_ok (rooms pkt) rs q"
    by (rule pass_inv_ok [OF FlowerPacket_service_clears inv])
  have tw: "\<forall>r0. twenty_flagged_in_room (rooms pkt) r0 \<longrightarrow> eight_of_twenty rs r0 q"
    using pass_eight_of_twenty [of "FlowerPacket_service bg" "rooms pkt" rs q,
        OF FlowerPacket_service_clears inv dn] by blast
  have sv: "\<forall>(a, j) \<in> set q. rs ! a ! j = FlowerPacket_service bg a (rooms pkt ! a ! j)"
    using inv unfolding pass_inv_def by fastforce
  from res ok tw sv show ?thesis by blast
qed

lemma TreePacket_update_summary:
  assumes "m < length (rooms pkt)"
  shows "\<exists>rs q. TreePacket_update bg m pkt = Inr (pkt\<lparr>rooms := rs\<rparr>, q)
           \<and> ground_pass_ok (rooms pkt) rs q
           \<and> (\<forall>r0. twenty_flagged_in_room (rooms pkt) r0 \<longrightarrow> eight_of_twenty rs r0 q)
           \<and> ((\<exists>j < length (rs ! m). needsGroundCheck (rs ! m ! j)) \<longrightarrow> (\<forall>(a, j) \<in> set q. a = m))
           \<and> (\<forall>(a, j) \<in> set q. rs ! a ! j = TreePacket_service bg a (rooms pkt ! a ! j))"
  unfolding TreePacket_update_def
  by (rule update_impl_summary [OF _ TreePacket_service_clears assms])
    (simp add: needsGroundCheck_def GrassFlags_needsGroundCheck_def)

lemma GrassPacket_update_summary:
  assumes "m < length (rooms pkt)"
  shows "\<exists>rs q. GrassPacket_update bg m pkt = Inr (pkt\<lparr>rooms := rs\<rparr>, q)
           \<and> ground_pass_ok (rooms pkt) rs q
           \<and> (\<forall>r0. twenty_flagged_in_room (rooms pkt) r0 \<longrightarrow> eight_of_twenty rs r0 q)
           \<and> ((\<exists>j < length (rs ! m). needsGroundCheck (rs ! m ! j)) \<longrightarrow> (\<forall>(a, j) \<in> set q. a = m))
           \<and> (\<forall>(a, j) \<in> set q. rs ! a ! j = GrassPacket_service bg a (rooms pkt ! a ! j))"
  unfolding GrassPacket_update_def
  by (rule update_impl_summary [OF _ GrassPacket_service_clears assms])
    (simp add: needsGroundCheck_def GrassFlags_needsGroundCheck_def)

lemma BushPacket_update_summary:
  assumes "m < length (rooms pkt)"
  shows "\<exists>rs q. BushPacket_update bg m pkt = Inr (pkt\<lparr>rooms := rs\<rparr>, q)
           \<and> ground_pass_ok (rooms pkt) rs q
           \<and> (\<forall>r0. twenty_flagged_in_room (rooms pkt) r0 \<longrightarrow> eight_of_twenty rs r0 q)
           \<and> ((\<exists>j < length (rs ! m). needsGroundCheck (rs ! m ! j)) \<longrightarrow> (\<forall>(a, j) \<in> set q. a = m))
           \<and> (\<forall>(a, j) \<in> set q. rs ! a ! j = BushPacket_service bg a (rooms pkt ! a ! j))"
  unfolding BushPacket_update_def
  by (rule update_impl_summary [OF _ BushPacket_service_clears assms])
    (simp add: needsGroundCheck_def TreeFlags_needsGroundCheck_def)

lemma FlowerPacket_update_rooms_empty:
  "FlowerPacket_update_rooms bg r (replicate k []) c = (replicate k [], c, [])"
  by (induction k arbitrary: r) simp_all

lemmas flower_eval = FlowerPacket_update_def FlowerPacket_update_rooms_empty sample_flower_def
  FlowerFlags_needsGroundCheck_def kMaxGroundChecksPerFrame_def needsGroundCheck_def
  FlowerPacket_service_def Let_def

text \<open>
  Claim C1. Every production packet should service the flagged instances of the
  current room \<open>mStayNo\<close> before any instance of another room. \<open>TreePacket\<close>,
  \<open>GrassPacket\<close> and \<open>BushPacket\<close> do (lemma \<open>current_room_first\<close> below);
  \<open>FlowerPacket.update\<close> does not read \<open>mStayNo\<close> and goes through the rooms in
  index order. With eight flagged flowers in room 0 and one flagged flower in room 1,
  the current room being room 1, the update services the eight flowers of room 0 and
  the flower of room 1 keeps its flag.
\<close>

theorem FlowerPacket_update_ignores_current_room:
  "snd (FlowerPacket_update sample_bgS
          \<lparr> rooms = [[sample_flower, sample_flower, sample_flower, sample_flower,
                       sample_flower, sample_flower, sample_flower, sample_flower],
                      [sample_flower]] @ replicate 62 [] \<rparr>)
     = [(0, 0), (0, 1), (0, 2), (0, 3), (0, 4), (0, 5), (0, 6), (0, 7)]
   \<and> needsGroundCheck
       (rooms (fst (FlowerPacket_update sample_bgS
          \<lparr> rooms = [[sample_flower, sample_flower, sample_flower, sample_flower,
                       sample_flower, sample_flower, sample_flower, sample_flower],
                      [sample_flower]] @ replicate 62 [] \<rparr>)) ! 1 ! 0)"
  by (simp add: flower_eval)

lemma current_room_first:
  assumes "mStayNo < length (rooms tp)" "mStayNo < length (rooms gp)" "mStayNo < length (rooms bp)"
  shows "(\<exists>rs q. TreePacket_update bg mStayNo tp = Inr (tp\<lparr>rooms := rs\<rparr>, q)
            \<and> ((\<exists>j < length (rs ! mStayNo). needsGroundCheck (rs ! mStayNo ! j))
                 \<longrightarrow> (\<forall>(a, j) \<in> set q. a = mStayNo)))
       \<and> (\<exists>rs q. GrassPacket_update bg mStayNo gp = Inr (gp\<lparr>rooms := rs\<rparr>, q)
            \<and> ((\<exists>j < length (rs ! mStayNo). needsGroundCheck (rs ! mStayNo ! j))
                 \<longrightarrow> (\<forall>(a, j) \<in> set q. a = mStayNo)))
       \<and> (\<exists>rs q. BushPacket_update bg mStayNo bp = Inr (bp\<lparr>rooms := rs\<rparr>, q)
            \<and> ((\<exists>j < length (rs ! mStayNo). needsGroundCheck (rs ! mStayNo ! j))
                 \<longrightarrow> (\<forall>(a, j) \<in> set q. a = mStayNo)))"
proof -
  from TreePacket_update_summary [OF assms(1), of bg] obtain rs q where
    "TreePacket_update bg mStayNo tp = Inr (tp\<lparr>rooms := rs\<rparr>, q)"
    "(\<exists>j < length (rs ! mStayNo). needsGroundCheck (rs ! mStayNo ! j))
       \<longrightarrow> (\<forall>(a, j) \<in> set q. a = mStayNo)"
    by (elim exE conjE)
  then have t: "\<exists>rs q. TreePacket_update bg mStayNo tp = Inr (tp\<lparr>rooms := rs\<rparr>, q)
            \<and> ((\<exists>j < length (rs ! mStayNo). needsGroundCheck (rs ! mStayNo ! j))
                 \<longrightarrow> (\<forall>(a, j) \<in> set q. a = mStayNo))"
    by (intro exI conjI)
  from GrassPacket_update_summary [OF assms(2), of bg] obtain rs q where
    "GrassPacket_update bg mStayNo gp = Inr (gp\<lparr>rooms := rs\<rparr>, q)"
    "(\<exists>j < length (rs ! mStayNo). needsGroundCheck (rs ! mStayNo ! j))
       \<longrightarrow> (\<forall>(a, j) \<in> set q. a = mStayNo)"
    by (elim exE conjE)
  then have g: "\<exists>rs q. GrassPacket_update bg mStayNo gp = Inr (gp\<lparr>rooms := rs\<rparr>, q)
            \<and> ((\<exists>j < length (rs ! mStayNo). needsGroundCheck (rs ! mStayNo ! j))
                 \<longrightarrow> (\<forall>(a, j) \<in> set q. a = mStayNo))"
    by (intro exI conjI)
  from BushPacket_update_summary [OF assms(3), of bg] obtain rs q where
    "BushPacket_update bg mStayNo bp = Inr (bp\<lparr>rooms := rs\<rparr>, q)"
    "(\<exists>j < length (rs ! mStayNo). needsGroundCheck (rs ! mStayNo ! j))
       \<longrightarrow> (\<forall>(a, j) \<in> set q. a = mStayNo)"
    by (elim exE conjE)
  then have b: "\<exists>rs q. BushPacket_update bg mStayNo bp = Inr (bp\<lparr>rooms := rs\<rparr>, q)
            \<and> ((\<exists>j < length (rs ! mStayNo). needsGroundCheck (rs ! mStayNo ! j))
                 \<longrightarrow> (\<forall>(a, j) \<in> set q. a = mStayNo))"
    by (intro exI conjI)
  from t g b show ?thesis by (intro conjI)
qed

text \<open>
  Claim C2. For each of the four production packets, one update call performs at most
  8 ground-height queries over all room buckets, never two for the same instance; each
  serviced instance was flagged and has its flag cleared, and every other instance is
  left as it was, flag included. With 20 flagged instances in one room and none
  elsewhere, exactly 8 of them lose the flag and 12 keep it. (For the three packets
  that read \<open>mStayNo\<close>, the current room is a room of the packet.)
\<close>

theorem ground_check_budget:
  "(\<exists>rs q. FlowerPacket_update bg fp = (fp\<lparr>rooms := rs\<rparr>, q)
       \<and> ground_pass_ok (rooms fp) rs q
       \<and> (\<forall>r0. twenty_flagged_in_room (rooms fp) r0 \<longrightarrow> eight_of_twenty rs r0 q))
   \<and> (mStayNo < length (rooms tp) \<longrightarrow>
        (\<exists>rs q. TreePacket_update bg mStayNo tp = Inr (tp\<lparr>rooms := rs\<rparr>, q)
           \<and> ground_pass_ok (rooms tp) rs q
           \<and> (\<forall>r0. twenty_flagged_in_room (rooms tp) r0 \<longrightarrow> eight_of_twenty rs r0 q)))
   \<and> (mStayNo < length (rooms gp) \<longrightarrow>
        (\<exists>rs q. GrassPacket_update bg mStayNo gp = Inr (gp\<lparr>rooms := rs\<rparr>, q)
           \<and> ground_pass_ok (rooms gp) rs q
           \<and> (\<forall>r0. twenty_flagged_in_room (rooms gp) r0 \<longrightarrow> eight_of_twenty rs r0 q)))
   \<and> (mStayNo < length (rooms bp) \<longrightarrow>
        (\<exists>rs q. BushPacket_update bg mStayNo bp = Inr (bp\<lparr>rooms := rs\<rparr>, q)
           \<and> ground_pass_ok (rooms bp) rs q
           \<and> (\<forall>r0. twenty_flagged_in_room (rooms bp) r0 \<longrightarrow> eight_of_twenty rs r0 q)))"
proof (intro conjI impI)
  show "\<exists>rs q. FlowerPacket_update bg fp = (fp\<lparr>rooms := rs\<rparr>, q)
       \<and> ground_pass_ok (rooms fp) rs q
       \<and> (\<forall>r0. twenty_flagged_in_room (rooms fp) r0 \<longrightarrow> eight_of_twenty rs r0 q)"
    using FlowerPacket_update_summary [of bg fp] by blast
next
  assume "mStayNo < length (rooms tp)"
  from TreePacket_update_summary [OF this, of bg]
  show "\<exists>rs q. TreePacket_update bg mStayNo tp = Inr (tp\<lparr>rooms := rs\<rparr>, q)
           \<and> ground_pass_ok (rooms tp) rs q
           \<and> (\<forall>r0. twenty_flagged_in_room (rooms tp) r0 \<longrightarrow> eight_of_twenty rs r0 q)"
    by blast
next
  assume "mStayNo < length (rooms gp)"
  from GrassPacket_update_summary [OF this, of bg]
  show "\<exists>rs q. GrassPacket_update bg mStayNo gp = Inr (gp\<lparr>rooms := rs\<rparr>, q)
           \<and> ground_pass_ok (rooms gp) rs q
           \<and> (\<forall>r0. twenty_flagged_in_room (rooms gp) r0 \<longrightarrow> eight_of_twenty rs r0 q)"
    by blast
next
  assume "mStayNo < length (rooms bp)"
  from BushPacket_update_summary [OF this, of bg]
  show "\<exists>rs q. BushPacket_update bg mStayNo bp = Inr (bp\<lparr>rooms := rs\<rparr>, q)
           \<and> ground_pass_ok (rooms bp) rs q
           \<and> (\<forall>r0. twenty_flagged_in_room (rooms bp) r0 \<longrightarrow> eight_of_twenty rs r0 q)"
    by blast
qed

lemma twenty_in_room_five_length: "length (rooms (twenty_in_room_five d)) = 64"
  by (simp add: twenty_in_room_five_def)

lemma twenty_in_room_five_flagged:
  assumes "needsGroundCheck d"
  shows "twenty_flagged_in_room (rooms (twenty_in_room_five d)) 5"
proof -
  have "(replicate 5 [] @ [replicate 20 d] @ replicate 58 []) ! a = []"
    if "a < 64" "a \<noteq> 5" for a
  proof (cases "a < 5")
    case True
    then show ?thesis by (simp add: nth_append)
  next
    case False
    with that have "a - 5 = Suc (a - 6)" "a - 6 < 58" by simp_all
    with False show ?thesis by (simp add: nth_append)
  qed
  with assms show ?thesis
    by (simp add: twenty_flagged_in_room_def twenty_in_room_five_def nth_append)
qed

theorem ground_check_budget_witness:
  "(\<exists>rs q. FlowerPacket_update sample_bgS (twenty_in_room_five sample_flower)
              = (twenty_in_room_five sample_flower\<lparr>rooms := rs\<rparr>, q)
       \<and> eight_of_twenty rs 5 q)
   \<and> (\<exists>rs q. TreePacket_update sample_bgS 3 (twenty_in_room_five sample_tree)
              = Inr (twenty_in_room_five sample_tree\<lparr>rooms := rs\<rparr>, q)
       \<and> eight_of_twenty rs 5 q)
   \<and> (\<exists>rs q. GrassPacket_update sample_bgS 3 (twenty_in_room_five sample_grass)
              = Inr (twenty_in_room_five sample_grass\<lparr>rooms := rs\<rparr>, q)
       \<and> eight_of_twenty rs 5 q)
   \<and> (\<exists>rs q. BushPacket_update sample_bgS 3 (twenty_in_room_five sample_bush)
              = Inr (twenty_in_room_five sample_bush\<lparr>rooms := rs\<rparr>, q)
       \<and> eight_of_twenty rs 5 q)"
proof -
  have f: "twenty_flagged_in_room (rooms (twenty_in_room_five sample_flower)) 5"
    by (rule twenty_in_room_five_flagged) (simp add: needsGroundCheck_def sample_flower_def)
  have t: "twenty_flagged_in_room (rooms (twenty_in_room_five sample_tree)) 5"
    by (rule twenty_in_room_five_flagged) (simp add: needsGroundCheck_def sample_tree_def)
  have g: "twenty_flagged_in_room (rooms (twenty_in_room_five sample_grass)) 5"
    by (rule twenty_in_room_five_flagged) (simp add: needsGroundCheck_def sample_grass_def)
  have b: "twenty_flagged_in_room (rooms (twenty_in_room_five sample_bush)) 5"
    by (rule twenty_in_room_five_flagged) (simp add: needsGroundCheck_def sample_bush_def)
  have l: "(3::nat) < length (rooms (twenty_in_room_five sample_tree))"
    "(3::nat) < length (rooms (twenty_in_room_five sample_grass))"
    "(3::nat) < length (rooms (twenty_in_room_five sample_bush))"
    by (simp_all add: twenty_in_room_five_length)
  note inst = ground_check_budget [of sample_bgS "twenty_in_room_five sample_flower" 3
      "twenty_in_room_five sample_tree" "twenty_in_room_five sample_grass"
      "twenty_in_room_five sample_bush"]
  from inst f have c1: "\<exists>rs q. FlowerPacket_update sample_bgS (twenty_in_room_five sample_flower)
              = (twenty_in_room_five sample_flower\<lparr>rooms := rs\<rparr>, q)
       \<and> eight_of_twenty rs 5 q"
    by (elim conjE exE) (intro exI conjI, assumption, simp)
  from inst l(1) have "\<exists>rs q. TreePacket_update sample_bgS 3 (twenty_in_room_five sample_tree)
              = Inr (twenty_in_room_five sample_tree\<lparr>rooms := rs\<rparr>, q)
           \<and> ground_pass_ok (rooms (twenty_in_room_five sample_tree)) rs q
           \<and> (\<forall>r0. twenty_flagged_in_room (rooms (twenty_in_room_five sample_tree)) r0
                    \<longrightarrow> eight_of_twenty rs r0 q)"
    by simp
  with t have c2: "\<exists>rs q. TreePacket_update sample_bgS 3 (twenty_in_room_five sample_tree)
              = Inr (twenty_in_room_five sample_tree\<lparr>rooms := rs\<rparr>, q)
       \<and> eight_of_twenty rs 5 q"
    by (elim conjE exE) (intro exI conjI, assumption, simp)
  from inst l(2) have "\<exists>rs q. GrassPacket_update sample_bgS 3 (twenty_in_room_five sample_grass)
              = Inr (twenty_in_room_five sample_grass\<lparr>rooms := rs\<rparr>, q)
           \<and> ground_pass_ok (rooms (twenty_in_room_five sample_grass)) rs q
           \<and> (\<forall>r0. twenty_flagged_in_room (rooms (twenty_in_room_five sample_grass)) r0
                    \<longrightarrow> eight_of_twenty rs r0 q)"
    by simp
  with g have c3: "\<exists>rs q. GrassPacket_update sample_bgS 3 (twenty_in_room_five sample_grass)
              = Inr (twenty_in_room_five sample_grass\<lparr>rooms := rs\<rparr>, q)
       \<and> eight_of_twenty rs 5 q"
    by (elim conjE exE) (intro exI conjI, assumption, simp)
  from inst l(3) have "\<exists>rs q. BushPacket_update sample_bgS 3 (twenty_in_room_five sample_bush)
              = Inr (twenty_in_room_five sample_bush\<lparr>rooms := rs\<rparr>, q)
           \<and> ground_pass_ok (rooms (twenty_in_room_five sample_bush)) rs q
           \<and> (\<forall>r0. twenty_flagged_in_room (rooms (twenty_in_room_five sample_bush)) r0
                    \<longrightarrow> eight_of_twenty rs r0 q)"
    by simp
  with b have c4: "\<exists>rs q. BushPacket_update sample_bgS 3 (twenty_in_room_five sample_bush)
              = Inr (twenty_in_room_five sample_bush\<lparr>rooms := rs\<rparr>, q)
       \<and> eight_of_twenty rs 5 q"
    by (elim conjE exE) (intro exI conjI, assumption, simp)
  from c1 c2 c3 c4 show ?thesis by (intro conjI)
qed

lemma FlowerPacket_service_miss:
  "ground_miss bg d \<Longrightarrow> pos (FlowerPacket_service bg a d) = pos d"
  by (cases "pos d")
    (simp add: ground_miss_def FlowerPacket_service_def checkGroundY_def set_pos_y_def Let_def)

lemma GrassPacket_service_miss:
  "ground_miss bg d \<Longrightarrow> pos (GrassPacket_service bg a d) = pos d"
  by (cases "pos d")
    (simp add: ground_miss_def GrassPacket_service_def checkGroundY_def set_pos_y_def Let_def)

lemma mat4_transpose_13: "mat4_transpose m ! 13 = m ! 7"
  by (simp add: mat4_transpose_def)

lemma shadow_rows_7:
  "length m = 16 \<Longrightarrow> shadow_rows m right normal forward p y ! 7 = coord_add y 1"
  by (cases right; cases normal; cases forward; cases p) (simp add: shadow_rows_def)

lemma TreePacket_service_miss:
  assumes "ground_miss bg d"
  shows "pos (TreePacket_service bg a d) = set_pos_y (pos d) NegInfinity
         \<and> (length (shadowModelMtx d) = 16
              \<longrightarrow> shadowModelMtx (TreePacket_service bg a d) ! 13 = NegInfinity)"
  using assms
  by (cases "pos d")
    (simp add: ground_miss_def TreePacket_service_def TreePacket_checkGroundY_def
      set_pos_y_def Let_def mat4_transpose_13 shadow_rows_7)

lemma BushPacket_service_miss:
  assumes "ground_miss bg d"
  shows "pos (BushPacket_service bg a d) = set_pos_y (pos d) NegInfinity
         \<and> (length (shadowModelMtx d) = 16
              \<longrightarrow> shadowModelMtx (BushPacket_service bg a d) ! 13 = NegInfinity)"
  using assms
  by (cases "pos d")
    (simp add: ground_miss_def BushPacket_service_def BushPacket_checkGroundY_def
      set_pos_y_def Let_def mat4_transpose_13 shadow_rows_7)

lemma update_impl_Inr_bound:
  "update_impl test service m pkt = Inr x \<Longrightarrow> m < length (rooms pkt)"
  by (simp add: update_impl_def split: if_splits)

text \<open>
  Claim C10. When the ground query for a serviced instance returns negative infinity,
  the Flower and the Grass packet leave the position of the instance as it was, while
  the Tree and the Bush packet store negative infinity as its Y coordinate, and (the
  shadow matrix having its 16 entries) negative infinity is entry 13 of the transposed
  shadow matrix, the Y entry of its translation. This holds for every instance that an
  update services.
\<close>

theorem ground_miss_asymmetry:
  "(FlowerPacket_update bg fp = (fp', qf) \<and> (a, j) \<in> set qf \<and> ground_miss bg (rooms fp ! a ! j)
      \<longrightarrow> pos (rooms fp' ! a ! j) = pos (rooms fp ! a ! j))
   \<and> (GrassPacket_update bg mStayNo gp = Inr (gp', qg) \<and> (a, j) \<in> set qg
        \<and> ground_miss bg (rooms gp ! a ! j)
      \<longrightarrow> pos (rooms gp' ! a ! j) = pos (rooms gp ! a ! j))
   \<and> (TreePacket_update bg mStayNo tp = Inr (tp', qt) \<and> (a, j) \<in> set qt
        \<and> ground_miss bg (rooms tp ! a ! j)
      \<longrightarrow> pos (rooms tp' ! a ! j) = set_pos_y (pos (rooms tp ! a ! j)) NegInfinity
          \<and> (length (shadowModelMtx (rooms tp ! a ! j)) = 16
               \<longrightarrow> shadowModelMtx (rooms tp' ! a ! j) ! 13 = NegInfinity))
   \<and> (BushPacket_update bg mStayNo bp = Inr (bp', qb) \<and> (a, j) \<in> set qb
        \<and> ground_miss bg (rooms bp ! a ! j)
      \<longrightarrow> pos (rooms bp' ! a ! j) = set_pos_y (pos (rooms bp ! a ! j)) NegInfinity
          \<and> (length (shadowModelMtx (rooms bp ! a ! j)) = 16
               \<longrightarrow> shadowModelMtx (rooms bp' ! a ! j) ! 13 = NegInfinity))"
proof (intro conjI; rule impI; elim conjE)
  assume u: "FlowerPacket_update bg fp = (fp', qf)" and s: "(a, j) \<in> set qf"
    and miss: "ground_miss bg (rooms fp ! a ! j)"
  from FlowerPacket_update_summary [of bg fp] obtain rs q where
    r: "FlowerPacket_update bg fp = (fp\<lparr>rooms := rs\<rparr>, q)"
    and sv: "\<forall>(a, j) \<in> set q. rs ! a ! j = FlowerPacket_service bg a (rooms fp ! a ! j)"
    by (elim exE conjE)
  from u r have "rooms fp' = rs" "qf = q" by auto
  with sv s have "rooms fp' ! a ! j = FlowerPacket_service bg a (rooms fp ! a ! j)" by auto
  with FlowerPacket_service_miss [OF miss]
  show "pos (rooms fp' ! a ! j) = pos (rooms fp ! a ! j)" by simp
next
  assume u: "GrassPacket_update bg mStayNo gp = Inr (gp', qg)" and s: "(a, j) \<in> set qg"
    and miss: "ground_miss bg (rooms gp ! a ! j)"
  from u have "mStayNo < length (rooms gp)"
    unfolding GrassPacket_update_def by (rule update_impl_Inr_bound)
  from GrassPacket_update_summary [OF this, of bg] obtain rs q where
    r: "GrassPacket_update bg mStayNo gp = Inr (gp\<lparr>rooms := rs\<rparr>, q)"
    and sv: "\<forall>(a, j) \<in> set q. rs ! a ! j = GrassPacket_service bg a (rooms gp ! a ! j)"
    by (elim exE conjE)
  from u r have "rooms gp' = rs" "qg = q" by auto
  with sv s have "rooms gp' ! a ! j = GrassPacket_service bg a (rooms gp ! a ! j)" by auto
  with GrassPacket_service_miss [OF miss]
  show "pos (rooms gp' ! a ! j) = pos (rooms gp ! a ! j)" by simp
next
  assume u: "TreePacket_update bg mStayNo tp = Inr (tp', qt)" and s: "(a, j) \<in> set qt"
    and miss: "ground_miss bg (rooms tp ! a ! j)"
  from u have "mStayNo < length (rooms tp)"
    unfolding TreePacket_update_def by (rule update_impl_Inr_bound)
  from TreePacket_update_summary [OF this, of bg] obtain rs q where
    r: "TreePacket_update bg mStayNo tp = Inr (tp\<lparr>rooms := rs\<rparr>, q)"
    and sv: "\<forall>(a, j) \<in> set q. rs ! a ! j = TreePacket_service bg a (rooms tp ! a ! j)"
    by (elim exE conjE)
  from u r have "rooms tp' = rs" "qt = q" by auto
  with sv s have "rooms tp' ! a ! j = TreePacket_service bg a (rooms tp ! a ! j)" by auto
  with TreePacket_service_miss [OF miss, of a]
  show "pos (rooms tp' ! a ! j) = set_pos_y (pos (rooms tp ! a ! j)) NegInfinity
          \<and> (length (shadowModelMtx (rooms tp ! a ! j)) = 16
               \<longrightarrow> shadowModelMtx (rooms tp' ! a ! j) ! 13 = NegInfinity)" by simp
next
  assume u: "BushPacket_update bg mStayNo bp = Inr (bp', qb)" and s: "(a, j) \<in> set qb"
    and miss: "ground_miss bg (rooms bp ! a ! j)"
  from u have "mStayNo < length (rooms bp)"
    unfolding BushPacket_update_def by (rule update_impl_Inr_bound)
  from BushPacket_update_summary [OF this, of bg] obtain rs q where
    r: "BushPacket_update bg mStayNo bp = Inr (bp\<lparr>rooms := rs\<rparr>, q)"
    and sv: "\<forall>(a, j) \<in> set q. rs ! a ! j = BushPacket_service bg a (rooms bp ! a ! j)"
    by (elim exE conjE)
  from u r have "rooms bp' = rs" "qb = q" by auto
  with sv s have "rooms bp' ! a ! j = BushPacket_service bg a (rooms bp ! a ! j)" by auto
  with BushPacket_service_miss [OF miss, of a]
  show "pos (rooms bp' ! a ! j) = set_pos_y (pos (rooms bp ! a ! j)) NegInfinity
          \<and> (length (shadowModelMtx (rooms bp ! a ! j)) = 16
               \<longrightarrow> shadowModelMtx (rooms bp' ! a ! j) ! 13 = NegInfinity)" by simp
qed

lemma update_other_rooms_empty:
  "\<forall>r \<in> set ord. r \<noteq> m \<longrightarrow> r < length rs \<and> rs ! r = []
     \<Longrightarrow> update_other_rooms test service m ord (rs, n, q) = (rs, n, q)"
proof (induction ord)
  case Nil
  then show ?case by simp
next
  case (Cons r ord)
  show ?case
  proof (cases "r = m \<or> n > kMaxGroundChecksPerFrame")
    case True
    with Cons show ?thesis by auto
  next
    case False
    with Cons.prems have "r < length rs" "rs ! r = []" by simp_all
    then have "rs[r := []] = rs" by (simp add: list_update_same_conv)
    with False Cons \<open>rs ! r = []\<close> show ?thesis by (simp add: updateRoom_def)
  qed
qed

lemma one_in_room_zero_update:
  assumes "test d 0"
  shows "update_impl test service 0 (one_in_room_zero d)
           = Inr (one_in_room_zero d\<lparr>rooms := [service 0 d] # replicate 63 []\<rparr>, [(0, 0)])"
proof -
  have "update_other_rooms test service 0 [0..<64] ([service 0 d] # replicate 63 [], Suc 0, [(0, 0)])
          = ([service 0 d] # replicate 63 [], Suc 0, [(0, 0)])"
    by (rule update_other_rooms_empty) (auto simp: nth_Cons')
  with assms show ?thesis
    by (simp add: update_impl_def one_in_room_zero_def updateRoom_def
        kMaxGroundChecksPerFrame_def Let_def)
qed

lemma one_in_room_zero_flower:
  "FlowerPacket_update bg (one_in_room_zero sample_flower)
     = (one_in_room_zero sample_flower
          \<lparr>rooms := [FlowerPacket_service bg 0 sample_flower] # replicate 63 []\<rparr>, [(0, 0)])"
  by (simp add: FlowerPacket_update_def one_in_room_zero_def FlowerPacket_update_rooms_empty
      sample_flower_def FlowerFlags_needsGroundCheck_def kMaxGroundChecksPerFrame_def)

theorem ground_miss_asymmetry_witness:
  "(\<exists>fp'. FlowerPacket_update sample_bgS (one_in_room_zero sample_flower) = (fp', [(0, 0)])
       \<and> pos (rooms fp' ! 0 ! 0) = (Fin 10, Fin 20, Fin 30))
   \<and> (\<exists>gp'. GrassPacket_update sample_bgS 0 (one_in_room_zero sample_grass) = Inr (gp', [(0, 0)])
       \<and> pos (rooms gp' ! 0 ! 0) = (Fin 10, Fin 20, Fin 30))
   \<and> (\<exists>tp'. TreePacket_update sample_bgS 0 (one_in_room_zero sample_tree) = Inr (tp', [(0, 0)])
       \<and> pos (rooms tp' ! 0 ! 0) = (Fin 10, NegInfinity, Fin 30)
       \<and> shadowModelMtx (rooms tp' ! 0 ! 0) ! 13 = NegInfinity)
   \<and> (\<exists>bp'. BushPacket_update sample_bgS 0 (one_in_room_zero sample_bush) = Inr (bp', [(0, 0)])
       \<and> pos (rooms bp' ! 0 ! 0) = (Fin 10, NegInfinity, Fin 30)
       \<and> shadowModelMtx (rooms bp' ! 0 ! 0) ! 13 = NegInfinity)"
proof -
  obtain fp' where f: "FlowerPacket_update sample_bgS (one_in_room_zero sample_flower) = (fp', [(0, 0)])"
    using one_in_room_zero_flower [of sample_bgS] by blast
  obtain gp' where g: "GrassPacket_update sample_bgS 0 (one_in_room_zero sample_grass) = Inr (gp', [(0, 0)])"
    unfolding GrassPacket_update_def
    using one_in_room_zero_update [of "\<lambda>data n. flags data AND GrassFlags_needsGroundCheck \<noteq> 0"
        sample_grass "GrassPacket_service sample_bgS"]
    by (simp add: sample_grass_def GrassFlags_needsGroundCheck_def)
  obtain tp' where t: "TreePacket_update sample_bgS 0 (one_in_room_zero sample_tree) = Inr (tp', [(0, 0)])"
    unfolding TreePacket_update_def
    using one_in_room_zero_update [of "\<lambda>data n. flags data AND GrassFlags_needsGroundCheck \<noteq> 0"
        sample_tree "TreePacket_service sample_bgS"]
    by (simp add: sample_tree_def GrassFlags_needsGroundCheck_def)
  obtain bp' where b: "BushPacket_update sample_bgS 0 (one_in_room_zero sample_bush) = Inr (bp', [(0, 0)])"
    unfolding BushPacket_update_def
    using one_in_room_zero_update [of "\<lambda>data n. flags data AND TreeFlags_needsGroundCheck \<noteq> 0
                            \<and> n < kMaxGroundChecksPerFrame"
        sample_bush "BushPacket_service sample_bgS"]
    by (simp add: sample_bush_def TreeFlags_needsGroundCheck_def kMaxGroundChecksPerFrame_def)
  have mf: "ground_miss sample_bgS (rooms (one_in_room_zero sample_flower) ! 0 ! 0)"
    and mg: "ground_miss sample_bgS (rooms (one_in_room_zero sample_grass) ! 0 ! 0)"
    and mt: "ground_miss sample_bgS (rooms (one_in_room_zero sample_tree) ! 0 ! 0)"
    and mb: "ground_miss sample_bgS (rooms (one_in_room_zero sample_bush) ! 0 ! 0)"
    by (simp_all add: ground_miss_def sample_bgS_def)
  have pf: "pos (rooms (one_in_room_zero sample_flower) ! 0 ! 0) = (Fin 10, Fin 20, Fin 30)"
    and pg: "pos (rooms (one_in_room_zero sample_grass) ! 0 ! 0) = (Fin 10, Fin 20, Fin 30)"
    and pt: "pos (rooms (one_in_room_zero sample_tree) ! 0 ! 0) = (Fin 10, Fin 20, Fin 30)"
      "length (shadowModelMtx (rooms (one_in_room_zero sample_tree) ! 0 ! 0)) = 16"
    and pb: "pos (rooms (one_in_room_zero sample_bush) ! 0 ! 0) = (Fin 10, Fin 20, Fin 30)"
      "length (shadowModelMtx (rooms (one_in_room_zero sample_bush) ! 0 ! 0)) = 16"
    by (simp_all add: one_in_room_zero_def sample_flower_def sample_grass_def sample_tree_def
        sample_bush_def mat4_create_def)
  note inst = ground_miss_asymmetry [of sample_bgS "one_in_room_zero sample_flower" fp' "[(0, 0)]"
      0 0 0 "one_in_room_zero sample_grass" gp' "[(0, 0)]"
      "one_in_room_zero sample_tree" tp' "[(0, 0)]"
      "one_in_room_zero sample_bush" bp' "[(0, 0)]"]
  from inst f mf pf have c1: "pos (rooms fp' ! 0 ! 0) = (Fin 10, Fin 20, Fin 30)" by simp
  from inst g mg pg have c2: "pos (rooms gp' ! 0 ! 0) = (Fin 10, Fin 20, Fin 30)" by simp
  from inst t mt pt have c3: "pos (rooms tp' ! 0 ! 0) = (Fin 10, NegInfinity, Fin 30)
       \<and> shadowModelMtx (rooms tp' ! 0 ! 0) ! 13 = NegInfinity"
    by (simp add: set_pos_y_def)
  from inst b mb pb have c4: "pos (rooms bp' ! 0 ! 0) = (Fin 10, NegInfinity, Fin 30)
       \<and> shadowModelMtx (rooms bp' ! 0 ! 0) ! 13 = NegInfinity"
    by (simp add: set_pos_y_def)
  from f g t b c1 c2 c3 c4 show ?thesis by blast
qed

subsection \<open>The grass actor\<close>

lemma grass_for_loop:
  assumes r: "0 \<le> roomNo this"
  shows "j + k \<le> length offsets \<Longrightarrow> nat (roomNo this) < length (rooms (grassPacket g)) \<Longrightarrow>
    for_loop j k
      (\<lambda>j g. case offset_at offsets j of
                Inl e \<Rightarrow> Inl e
              | Inr offset \<Rightarrow>
                  let p = vec3_add offset (acPos this) in
                  map_sum id (\<lambda>pkt. g\<lparr>grassPacket := pkt\<rparr>)
                    (GrassPacket_newData p (roomNo this) item (rnd j) (grassPacket g)))
      g
    = Inr (g\<lparr>grassPacket := (grassPacket g)
             \<lparr>rooms := (rooms (grassPacket g))
                [nat (roomNo this) := rooms (grassPacket g) ! nat (roomNo this)
                   @ map (grass_instance rnd this offsets item) [j..<j + k]]\<rparr>\<rparr>)"
proof (induction k arbitrary: j g)
  case 0
  then show ?case by simp
next
  case (Suc k)
  let ?r = "nat (roomNo this)"
  let ?rs = "rooms (grassPacket g)"
  let ?g1 = "g\<lparr>grassPacket := (grassPacket g)
              \<lparr>rooms := ?rs[?r := ?rs ! ?r @ [grass_instance rnd this offsets item j]]\<rparr>\<rparr>"
  have j: "j < length offsets" using Suc.prems(1) by simp
  have l1: "Suc j + k \<le> length offsets" using Suc.prems(1) by simp
  have l2: "?r < length (rooms (grassPacket ?g1))" using Suc.prems(2) by simp
  have up: "[j..<j + Suc k] = j # [Suc j..<Suc j + k]"
    by (simp add: upt_conv_Cons)
  from Suc.IH [OF l1 l2] j r Suc.prems(2) show ?case
    unfolding up
    by (simp add: offset_at_def GrassPacket_newData_def rooms_push_def Let_def
        grass_instance_def)
qed

lemma decode_2:
  "spawnPatternId_of 2 = 2" "foliageType_of 2 = FoliageType_Grass" "itemIdx_of 2 = 0"
  by (simp_all add: spawnPatternId_of_def foliageType_of_def itemIdx_of_def
      FoliageType_Grass_def)

text \<open>
  Claim C7. A grass actor whose parameter word is \<open>0x2\<close> decodes
  \<open>spawnPatternId = 2\<close>, foliage type Grass and \<open>itemIdx = 0\<close>, selects the pattern
  \<open>{group: 1, count: 15}\<close>, and (its room number being a room of the packet)
  \<open>subload\<close> appends exactly 15 instances to its room of the Grass packet and changes
  nothing else: the \<open>j\<close>-th is at the actor's position plus the \<open>j\<close>-th offset of
  group 1, whose first entries are \<open>(-18,0,76)\<close>, \<open>(-15,0,26)\<close>, \<open>(133,0,0)\<close>; the
  rotation of the actor does not enter.
\<close>

theorem grass_spawn_parameter_2:
  assumes "parameters this = 0x2" and "0 \<le> roomNo this"
    and "nat (roomNo this) < length (rooms (grassPacket globals))"
  shows "spawnPatternId_of (parameters this) = 2
     \<and> foliageType_of (parameters this) = FoliageType_Grass
     \<and> itemIdx_of (parameters this) = 0
     \<and> kSpawnPatterns ! 2 = (1, 15)
     \<and> take 3 (kSpawnOffsets ! 1) = [(-18, 0, 76), (-15, 0, 26), (133, 0, 0)]
     \<and> subload rnd this globals =
         Inr (globals\<lparr>grassPacket := (grassPacket globals)
               \<lparr>rooms := (rooms (grassPacket globals))
                  [nat (roomNo this) := rooms (grassPacket globals) ! nat (roomNo this)
                     @ map (\<lambda>j. \<lparr> flags = GrassFlags_needsGroundCheck, animIdx = rnd j,
                                   pos = vec3_add (kSpawnOffsets ! 1 ! j) (acPos this),
                                   itemIdx = 0 \<rparr>) [0..<15]]\<rparr>\<rparr>)"
proof -
  have len: "0 + 15 \<le> length (kSpawnOffsets ! 1)"
    by (simp add: kSpawnOffsets_def)
  have m: "grass_instance rnd this (kSpawnOffsets ! 1) 0
             = (\<lambda>j. \<lparr> flags = GrassFlags_needsGroundCheck, animIdx = rnd j,
                        pos = vec3_add (kSpawnOffsets ! 1 ! j) (acPos this), itemIdx = 0 \<rparr>)"
    by (rule ext) (simp add: grass_instance_def)
  have pat: "kSpawnPatterns ! 2 = (1, 15)" "length kSpawnPatterns = 8"
    by (simp_all add: kSpawnPatterns_def)
  have offs: "take 3 (kSpawnOffsets ! 1) = [(-18, 0, 76), (-15, 0, 26), (133, 0, 0)]"
    by (simp add: kSpawnOffsets_def)
  from grass_for_loop [OF assms(2) len assms(3), of 0 rnd] m
  have "subload rnd this globals =
         Inr (globals\<lparr>grassPacket := (grassPacket globals)
               \<lparr>rooms := (rooms (grassPacket globals))
                  [nat (roomNo this) := rooms (grassPacket globals) ! nat (roomNo this)
                     @ map (\<lambda>j. \<lparr> flags = GrassFlags_needsGroundCheck, animIdx = rnd j,
                                   pos = vec3_add (kSpawnOffsets ! 1 ! j) (acPos this),
                                   itemIdx = 0 \<rparr>) [0..<15]]\<rparr>\<rparr>)"
    by (simp add: subload_def assms(1) decode_2 pat Let_def)
  with assms(1) decode_2 pat(1) offs show ?thesis by simp
qed

theorem grass_spawn_parameter_2_witness:
  "\<exists>g'. subload (\<lambda>j. j mod 8) sample_grass_actor sample_globals = Inr g'
     \<and> length (rooms (grassPacket g') ! 7) = 15
     \<and> pos (rooms (grassPacket g') ! 7 ! 0) = (Fin 82, Fin 0, Fin 276)
     \<and> pos (rooms (grassPacket g') ! 7 ! 2) = (Fin 233, Fin 0, Fin 200)
     \<and> flowerPacket g' = Packet_new \<and> treePacket g' = Packet_new"
proof -
  have h: "parameters sample_grass_actor = 0x2" "0 \<le> roomNo sample_grass_actor"
    "nat (roomNo sample_grass_actor) < length (rooms (grassPacket sample_globals))"
    by (simp_all add: sample_grass_actor_def sample_globals_def Packet_new_def)
  from grass_spawn_parameter_2 [OF h, of "\<lambda>j. j mod 8"]
  have s: "subload (\<lambda>j. j mod 8) sample_grass_actor sample_globals =
         Inr (sample_globals\<lparr>grassPacket := (grassPacket sample_globals)
               \<lparr>rooms := (rooms (grassPacket sample_globals))
                  [nat (roomNo sample_grass_actor) :=
                     rooms (grassPacket sample_globals) ! nat (roomNo sample_grass_actor)
                     @ map (\<lambda>j. \<lparr> flags = GrassFlags_needsGroundCheck, animIdx = j mod 8,
                                   pos = vec3_add (kSpawnOffsets ! 1 ! j) (acPos sample_grass_actor),
                                   itemIdx = 0 \<rparr>) [0..<15]]\<rparr>\<rparr>)"
    by (elim conjE)
  show ?thesis
    unfolding s
    by (simp add: sample_grass_actor_def sample_globals_def Packet_new_def kSpawnOffsets_def vec3_add_def
        del: upt_Suc)
qed

subsection \<open>The legacy flower packet\<close>

lemma findIndex_undefined_full:
  "\<forall>d \<in> set ds. d \<noteq> None \<Longrightarrow> findIndex_undefined ds i = - 1"
  by (induction ds arbitrary: i) simp_all

text \<open>
  Claim C9. In the legacy flower packet, when all 200 slots of the array are occupied,
  \<open>newData\<close> logs a warning and the new spawn is dropped: after the call the array
  of slots is what it was before, so no slot is overwritten and no slot holds the new
  record. (The record is stored as the property \<open>-1\<close> of the array object, which is
  not a slot, and is returned to a caller that ignores it.)
\<close>

theorem legacy_newData_full:
  assumes "length (datas pkt) = kMaxFlowerDatas" and "\<forall>d \<in> set (datas pkt). d \<noteq> None"
  shows "\<exists>data pkt'. LegacyFlowerPacket_newData stage p ty room item anim pkt = (data, pkt')
           \<and> datas pkt' = datas pkt
           \<and> warnings pkt' = warnings pkt @ [''Failed to allocate flower data'']
           \<and> datas_props pkt' = (datas_props pkt)(- 1 \<mapsto> data)
           \<and> pos data = p \<and> itemIdx data = item \<and> animIdx data = anim"
  using findIndex_undefined_full [OF assms(2), of 0]
  by (simp add: LegacyFlowerPacket_newData_def LegacyFlowerPacket_setData_def Let_def)

theorem legacy_newData_full_witness:
  "\<exists>data pkt'. LegacyFlowerPacket_newData ''sea'' (Fin 1, Fin 2, Fin 3) PINK 4 5 6
                   full_legacy_packet = (data, pkt')
     \<and> datas pkt' = replicate 200 (Some sample_flower)
     \<and> warnings pkt' = [''Failed to allocate flower data'']
     \<and> pos data = (Fin 1, Fin 2, Fin 3)"
proof -
  have h: "length (datas full_legacy_packet) = kMaxFlowerDatas"
    "\<forall>d \<in> set (datas full_legacy_packet). d \<noteq> None"
    by (simp_all add: full_legacy_packet_def)
  from legacy_newData_full [OF h, of "''sea''" "(Fin 1, Fin 2, Fin 3)" PINK 4 5 6]
  obtain data pkt' where
    "LegacyFlowerPacket_newData ''sea'' (Fin 1, Fin 2, Fin 3) PINK 4 5 6 full_legacy_packet
       = (data, pkt')"
    "datas pkt' = datas full_legacy_packet"
    "warnings pkt' = warnings full_legacy_packet @ [''Failed to allocate flower data'']"
    "pos data = (Fin 1, Fin 2, Fin 3)"
    by (elim exE conjE)
  then show ?thesis
    by (intro exI [of _ data] exI [of _ pkt'])
      (simp add: full_legacy_packet_def kMaxFlowerDatas_def)
qed

subsection \<open>Sequence objects\<close>

lemmas stb_simps = set_status_def do_begin_def do_end_def do_wait_def emit_def

lemma forward_head_enter:
  assumes "mFlags st AND 0x8000 = 0" "mStatus st \<noteq> EStatus_Inactive"
    "\<not> controlSuspended" "\<not> mSuspendFrames st > 0"
  shows "forward_head controlSuspended st frameCount = Inr (Head_enter st)"
  using assms by (simp add: forward_head_def)

lemma process_sequence_End:
  assumes "hasAdaptor st" "pSequence st + 4 \<le> length (mData st)"
    "mData st ! pSequence st = 0"
  shows "process_sequence st = Inr (st\<lparr>pSequence_next := 0\<rparr>)"
  using assms
  by (simp add: process_sequence_def getUint8_def getUint32_def adaptor_log_def
      ESequenceCmd_defs Let_def)

text \<open>
  Claim C4. Take an object whose sequence has not started (status Still, no sequence
  running, no wait pending), which has an adaptor, whose flag \<open>0x8000\<close> is clear,
  with no suspension of the object or of the control, and whose first command word
  has the command byte 0 (End). One call \<open>forward(frameCount)\<close>, for any
  \<open>frameCount\<close>, returns \<open>false\<close> and does exactly this, in order: the begin hook,
  status Wait, one update with frame count 0 (\<open>adaptor_updateVariableValue\<close> and
  \<open>adaptor_do_update\<close>), status End, the end hook. The status goes from Wait to End
  and is never Suspend.
\<close>

theorem first_command_End:
  assumes fresh: "mStatus st = EStatus_Still" "\<not> mIsSequence st" "mWait st = 0"
    and adaptor: "hasAdaptor st"
    and active: "mFlags st AND 0x8000 = 0"
    and nosusp: "\<not> controlSuspended" "\<not> mSuspendFrames st > 0"
    and first: "pSequence_next st \<noteq> 0" "pSequence_next st + 4 \<le> length (mData st)"
      "mData st ! pSequence_next st = 0"
  shows "STBObject_forward controlSuspended st frameCount =
           Inr (False, st\<lparr>pSequence := 0, pSequence_next := 0, mStatus := EStatus_End,
                            mIsSequence := False,
                            events := events st @
                              [adaptor_do_begin, status_set EStatus_Wait,
                               adaptor_updateVariableValue 0, adaptor_do_update 0,
                               status_set EStatus_End, adaptor_do_end]\<rparr>)"
proof -
  let ?a = "st\<lparr>pSequence := pSequence_next st, mIsSequence := True,
                 mStatus := EStatus_Wait,
                 events := events st @ [adaptor_do_begin, status_set EStatus_Wait],
                 pSequence_next := 0\<rparr>"
  have h1: "forward_head controlSuspended st frameCount = Inr (Head_enter st)"
    using active fresh nosusp by (simp add: forward_head_enter)
  have ps: "process_sequence
              (set_status EStatus_Wait
                 (do_begin (st\<lparr>pSequence := pSequence_next st, mIsSequence := True\<rparr>)))
            = Inr ?a"
    using adaptor first
    by (subst process_sequence_End) (simp_all add: stb_simps)
  have b1: "forward_body st frameCount False = Inr (Body_break ?a)"
    using fresh first adaptor ps
    by (simp add: forward_body_def Let_def stb_simps)
  have h2: "forward_head controlSuspended ?a frameCount = Inr (Head_enter ?a)"
    using active nosusp by (simp add: forward_head_enter)
  have b2: "forward_body ?a frameCount False =
              Inr (Body_return False
                (st\<lparr>pSequence := 0, pSequence_next := 0, mStatus := EStatus_End,
                            mIsSequence := False,
                            events := events st @
                              [adaptor_do_begin, status_set EStatus_Wait,
                               adaptor_updateVariableValue 0, adaptor_do_update 0,
                               status_set EStatus_End, adaptor_do_end]\<rparr>))"
    using adaptor by (simp add: forward_body_def Let_def stb_simps)
  show ?thesis
    unfolding STBObject_forward_def
    apply (subst forward_loop.simps, simp add: h1)
    apply (subst forward_loop.simps, simp add: b1)
    apply (subst forward_loop.simps, simp add: h2)
    apply (subst forward_loop.simps, simp add: b2)
    done
qed

theorem first_command_End_witness:
  "map_sum id (\<lambda>(b, st'). (b, mStatus st', events st'))
     (STBObject_forward False end_first_object 1)
   = Inr (False, EStatus_End,
          [adaptor_do_begin, status_set EStatus_Wait, adaptor_updateVariableValue 0,
           adaptor_do_update 0, status_set EStatus_End, adaptor_do_end])"
proof -
  have h: "mStatus end_first_object = EStatus_Still" "\<not> mIsSequence end_first_object"
    "mWait end_first_object = 0" "hasAdaptor end_first_object"
    "mFlags end_first_object AND 0x8000 = 0" "\<not> False"
    "\<not> mSuspendFrames end_first_object > 0"
    "pSequence_next end_first_object \<noteq> 0"
    "pSequence_next end_first_object + 4 \<le> length (mData end_first_object)"
    "mData end_first_object ! pSequence_next end_first_object = 0"
    by (simp_all add: end_first_object_def STBObject_new_def align_def nth_append)
  have e: "events end_first_object = []"
    by (simp add: end_first_object_def STBObject_new_def)
  from first_command_End [OF h, of 1] e show ?thesis by simp
qed

end
